theory Spec2Isabelle
  imports Main "HOL-Library.AList"
begin

section \<open>The logging backend and the appender factory (external collaborators)\<close>

text \<open>
  The severities of the logging backend. The backend's parser of severity names
  (\<open>zapcore.Level.UnmarshalText\<close>) is not part of \<open>core.go\<close>: every operation that
  parses a level name takes the parser as its first argument, so that the theorems hold
  for every vocabulary.
\<close>

datatype zap_level =
  DebugLevel | InfoLevel | WarnLevel | ErrorLevel | DPanicLevel | PanicLevel | FatalLevel

type_synonym level_parser = "string \<Rightarrow> zap_level option"

text \<open>
  Objects that \<open>core.go\<close> allocates are told apart by their address. The allocator is a
  counter: the next free address is passed into every operation that allocates and is
  returned advanced.
\<close>

type_synonym addr = nat

text \<open>\<open>zap.AtomicLevel\<close>: a pointer to an atomic severity.\<close>

record atomic_level =
  level_addr :: addr
  level_value :: zap_level

text \<open>
  \<open>appender.Appender\<close>: an encoder and a writer, both opaque. A \<open>*appender.Appender\<close>
  is an \<open>appender option\<close>, \<open>None\<close> being the nil pointer.
\<close>

record appender =
  Encoder :: nat
  Writer :: nat

text \<open>
  \<open>zapcore.NewCore(enc, ws, enab)\<close>. The level enabler is an interface value, nil in a
  \<open>Core\<close> whose \<open>rootLevel\<close> was never set.
\<close>

record zcore =
  core_enc :: nat
  core_ws :: nat
  core_enab :: "atomic_level option"

definition NewCore :: "nat \<Rightarrow> nat \<Rightarrow> atomic_level option \<Rightarrow> zcore" where
  "NewCore enc ws enab = \<lparr>core_enc = enc, core_ws = ws, core_enab = enab\<rparr>"

text \<open>
  \<open>zapcore.NewTee(zcs...)\<close>: the fan-out over the cores given (over none of them when the
  list is empty).
\<close>

definition NewTee :: "zcore list \<Rightarrow> zcore list" where
  "NewTee zcs = zcs"

text \<open>
  \<open>*ZapLogger\<close>, the logger handle: \<open>NewZapLogger(zap.New(zt).Named(name).Sugar())\<close>
  allocates one; its address is its identity.
\<close>

record zap_logger =
  logger_addr :: addr
  logger_name :: string
  logger_tee :: "zcore list"

definition NewZapLogger :: "addr \<Rightarrow> string \<Rightarrow> zcore list \<Rightarrow> zap_logger \<times> addr" where
  "NewZapLogger h name zt =
     (\<lparr>logger_addr = h, logger_name = name, logger_tee = zt\<rparr>, h + 1)"

section \<open>Errors\<close>

datatype error =
    EmptyName
  | NilAppender
  | DuplicateName string
  | NotFound string
  | InvalidLevel string
  | NoAppenders
  | DuplicateLogger string
  | ExternalError string

section \<open>The typed configuration\<close>

text \<open>
  \<open>cfg.Logger\<close> has the fields of the root logger block and a name. An appender block is
  known to \<open>core.go\<close> through two calls only, \<open>appender.CreateAppender\<close> and
  \<open>appenderConfig.Name()\<close>; a block is modelled by what the two calls return on it.
\<close>

record root_logger =
  Level :: string
  AppenderRefs :: "string list"

record logger_cfg = root_logger +
  Name :: string

record loggers_cfg =
  Root :: "root_logger"
  Logger :: "logger_cfg list"

record appender_config =
  create_result :: "string + appender option"
  name_result :: "string + string"

record config =
  Appenders :: "(string \<times> appender_config list) list"
  Loggers :: loggers_cfg

definition CreateAppender :: "string \<Rightarrow> appender_config \<Rightarrow> string + appender option" where
  "CreateAppender appenderType appenderConfig = create_result appenderConfig"

definition ConfigName :: "appender_config \<Rightarrow> string + string" where
  "ConfigName appenderConfig = name_result appenderConfig"

text \<open>
  Modelled from the spec: \<open>common.MakeStringSet\<close> and \<open>StringSet.ToSlice\<close>, which are not
  in \<open>core.go\<close> ("Deduplicates appenderRefNames into a set"). The set is kept as a list
  without repetitions; the order of the list stands for the order in which a \<open>range\<close>
  visits the set, which Go leaves open.
\<close>

definition MakeStringSet :: "string list \<Rightarrow> string list" where
  "MakeStringSet strings = remdups strings"

definition ToSlice :: "string list \<Rightarrow> string list" where
  "ToSlice s = s"

section \<open>The registry\<close>

text \<open>
  \<open>sync.Map\<close> and the Go maps keyed by name. \<open>rootAppenders\<close> is ranged over, so it is
  kept as an association list with distinct keys.
\<close>

record core =
  nameToLogger :: "string \<rightharpoonup> zap_logger"
  nameToAppender :: "string \<rightharpoonup> appender"
  rootAppenders :: "(string \<times> appender) list"
  rootLevel :: "atomic_level option"
  rootLevelName :: string
  rootAppenderRefs :: "string list"

definition Load :: "(string \<rightharpoonup> zap_logger) \<Rightarrow> string \<Rightarrow> zap_logger option" where
  "Load m key = m key"

definition LoadOrStore ::
  "(string \<rightharpoonup> zap_logger) \<Rightarrow> string \<Rightarrow> zap_logger
     \<Rightarrow> zap_logger \<times> bool \<times> (string \<rightharpoonup> zap_logger)" where
  "LoadOrStore m key v =
     (case m key of
        Some actual \<Rightarrow> (actual, True, m)
      | None \<Rightarrow> (v, False, m(key \<mapsto> v)))"

definition createLevel :: "level_parser \<Rightarrow> addr \<Rightarrow> string \<Rightarrow> error + (atomic_level \<times> addr)" where
  "createLevel parse h level =
     (case parse level of
        None \<Rightarrow> Inl (InvalidLevel level)
      | Some l \<Rightarrow> Inr (\<lparr>level_addr = h, level_value = l\<rparr>, h + 1))"

text \<open>
  \<open>putAppender\<close> mutates the registry in place and returns an error or nil: the model
  returns the error, if any, and the registry as the call leaves it.
\<close>

definition putAppender :: "core \<Rightarrow> string \<Rightarrow> appender option \<Rightarrow> error option \<times> core" where
  "putAppender c name a =
     (if name = '''' then (Some EmptyName, c)
      else case a of
             None \<Rightarrow> (Some NilAppender, c)
           | Some ap \<Rightarrow>
               if nameToAppender c name \<noteq> None then (Some (DuplicateName name), c)
               else (None, c\<lparr>nameToAppender := (nameToAppender c)(name \<mapsto> ap)\<rparr>))"

definition getAppender :: "core \<Rightarrow> string \<Rightarrow> error + appender" where
  "getAppender c name =
     (case nameToAppender c name of
        None \<Rightarrow> Inl (NotFound name)
      | Some a \<Rightarrow> Inr a)"

text \<open>Lines 58 to 64 of \<open>newLogger\<close>: the fallback to the root's level name and refs.\<close>

definition effective_levelName :: "core \<Rightarrow> logger_cfg \<Rightarrow> string" where
  "effective_levelName c loggerCfg =
     (if Level loggerCfg = '''' then rootLevelName c else Level loggerCfg)"

definition effective_afs :: "core \<Rightarrow> logger_cfg \<Rightarrow> string list" where
  "effective_afs c loggerCfg =
     (if length (AppenderRefs loggerCfg) = 0 then rootAppenderRefs c
      else AppenderRefs loggerCfg)"

text \<open>Lines 71 to 78: the loop that fills the local map \<open>am\<close>.\<close>

fun resolve_refs ::
  "core \<Rightarrow> string list \<Rightarrow> (string \<times> appender) list \<Rightarrow> error + (string \<times> appender) list" where
  "resolve_refs c [] am = Inr am"
| "resolve_refs c (a # rest) am =
     (case getAppender c a of
        Inl err \<Rightarrow> Inl err
      | Inr ap \<Rightarrow> resolve_refs c rest (AList.update a ap am))"

definition build_cores :: "(string \<times> appender) list \<Rightarrow> atomic_level option \<Rightarrow> zcore list" where
  "build_cores am level = map (\<lambda>(n, a). NewCore (Encoder a) (Writer a) level) am"

definition newLogger ::
  "level_parser \<Rightarrow> core \<Rightarrow> addr \<Rightarrow> logger_cfg \<Rightarrow> error + (zap_logger \<times> addr)" where
  "newLogger parse c h loggerCfg =
     (let name = Name loggerCfg;
          levelName = effective_levelName c loggerCfg;
          afs = effective_afs c loggerCfg
      in case createLevel parse h levelName of
           Inl err \<Rightarrow> Inl err
         | Inr (level, h1) \<Rightarrow>
             (case resolve_refs c (MakeStringSet afs) [] of
                Inl err \<Rightarrow> Inl err
              | Inr am \<Rightarrow>
                  if length am = 0 then Inl NoAppenders
                  else Inr (NewZapLogger h1 name (NewTee (build_cores am (Some level))))))"

definition newNamedLogger :: "core \<Rightarrow> addr \<Rightarrow> string \<Rightarrow> zap_logger \<times> addr" where
  "newNamedLogger c h name =
     NewZapLogger h name (NewTee (build_cores (rootAppenders c) (rootLevel c)))"

definition GetLogger :: "core \<Rightarrow> addr \<Rightarrow> string \<Rightarrow> zap_logger \<times> core \<times> addr" where
  "GetLogger c h name =
     (case Load (nameToLogger c) name of
        Some logger \<Rightarrow> (logger, c, h)
      | None \<Rightarrow>
          (let (zl, h1) = newNamedLogger c h name;
               (v, loaded, m) = LoadOrStore (nameToLogger c) name zl
           in (v, c\<lparr>nameToLogger := m\<rparr>, h1)))"

section \<open>Initialisation\<close>

text \<open>Lines 126 to 140: the two nested loops over the appender blocks.\<close>

fun put_configs :: "core \<Rightarrow> string \<Rightarrow> appender_config list \<Rightarrow> error + core" where
  "put_configs c appenderType [] = Inr c"
| "put_configs c appenderType (appenderConfig # rest) =
     (case CreateAppender appenderType appenderConfig of
        Inl msg \<Rightarrow> Inl (ExternalError msg)
      | Inr a \<Rightarrow>
          (case ConfigName appenderConfig of
             Inl msg \<Rightarrow> Inl (ExternalError msg)
           | Inr name \<Rightarrow>
               (case putAppender c name a of
                  (Some err, c') \<Rightarrow> Inl err
                | (None, c') \<Rightarrow> put_configs c' appenderType rest)))"

fun put_groups :: "core \<Rightarrow> (string \<times> appender_config list) list \<Rightarrow> error + core" where
  "put_groups c [] = Inr c"
| "put_groups c ((appenderType, appenderConfigs) # rest) =
     (case put_configs c appenderType appenderConfigs of
        Inl err \<Rightarrow> Inl err
      | Inr c' \<Rightarrow> put_groups c' rest)"

text \<open>Lines 152 to 158: the loop over the root's set of refs.\<close>

fun root_refs_loop :: "core \<Rightarrow> string list \<Rightarrow> error + core" where
  "root_refs_loop c [] = Inr c"
| "root_refs_loop c (appenderRef # rest) =
     (case getAppender c appenderRef of
        Inl err \<Rightarrow> Inl err
      | Inr a \<Rightarrow>
          root_refs_loop (c\<lparr>rootAppenders := AList.update appenderRef a (rootAppenders c)\<rparr>) rest)"

text \<open>Lines 162 to 170: the loop over the declared loggers.\<close>

fun loggers_loop :: "level_parser \<Rightarrow> core \<Rightarrow> addr \<Rightarrow> logger_cfg list \<Rightarrow> error + (core \<times> addr)" where
  "loggers_loop parse c h [] = Inr (c, h)"
| "loggers_loop parse c h (lc # rest) =
     (case newLogger parse c h lc of
        Inl err \<Rightarrow> Inl err
      | Inr (l, h1) \<Rightarrow>
          (case LoadOrStore (nameToLogger c) (Name lc) l of
             (v, loaded, m) \<Rightarrow>
               if loaded then Inl (DuplicateLogger (Name lc))
               else loggers_loop parse (c\<lparr>nameToLogger := m\<rparr>) h1 rest))"

definition empty_core :: core where
  "empty_core =
     \<lparr>nameToLogger = Map.empty, nameToAppender = Map.empty, rootAppenders = [],
      rootLevel = None, rootLevelName = '''', rootAppenderRefs = []\<rparr>"

text \<open>
  \<open>New\<close>. The raw configuration is modelled by what \<open>rawConfig.Unpack\<close> returns on it: an
  error message or the typed configuration. A failure of \<open>New\<close> is \<open>Inl\<close> of the error,
  with no registry; a success is \<open>Inr\<close> of the registry and of the allocator.
  \<open>New_root\<close> is the body of \<open>New\<close> down to line 159 (decoding, the appender registry,
  the root level and the root appenders); \<open>New\<close> goes on with the declared loggers.
\<close>

definition New_root :: "level_parser \<Rightarrow> addr \<Rightarrow> string + config \<Rightarrow> error + (core \<times> addr)" where
  "New_root parse h rawConfig =
     (case rawConfig of
        Inl msg \<Rightarrow> Inl (ExternalError msg)
      | Inr config \<Rightarrow>
          (case put_groups empty_core (Appenders config) of
             Inl err \<Rightarrow> Inl err
           | Inr c1 \<Rightarrow>
               (case createLevel parse h (Level (Root (Loggers config))) of
                  Inl err \<Rightarrow> Inl err
                | Inr (level, h1) \<Rightarrow>
                    (let c2 = c1\<lparr>rootLevel := Some level,
                                 rootLevelName := Level (Root (Loggers config))\<rparr>;
                         rootAppenderRefSet = MakeStringSet (AppenderRefs (Root (Loggers config)))
                     in case root_refs_loop c2 rootAppenderRefSet of
                          Inl err \<Rightarrow> Inl err
                        | Inr c3 \<Rightarrow>
                            Inr (c3\<lparr>rootAppenderRefs := ToSlice rootAppenderRefSet\<rparr>, h1)))))"

definition loggers_of :: "string + config \<Rightarrow> logger_cfg list" where
  "loggers_of rawConfig = (case rawConfig of Inl msg \<Rightarrow> [] | Inr config \<Rightarrow> Logger (Loggers config))"

definition New :: "level_parser \<Rightarrow> addr \<Rightarrow> string + config \<Rightarrow> error + (core \<times> addr)" where
  "New parse h rawConfig =
     (case New_root parse h rawConfig of
        Inl err \<Rightarrow> Inl err
      | Inr (c, h1) \<Rightarrow> loggers_loop parse c h1 (loggers_of rawConfig))"

section \<open>Concurrent callers of \<open>GetLogger\<close>\<close>

text \<open>
  Several goroutines call \<open>GetLogger\<close> on the same registry. \<open>sync.Map.Load\<close> and
  \<open>sync.Map.LoadOrStore\<close> are atomic, so a call is a sequence of three steps, and any
  other goroutine may run between two of them: the \<open>Load\<close> of line 104, the construction
  of line 108, the \<open>LoadOrStore\<close> of line 109. A thread is at one of four points.
\<close>

datatype thread =
    Calling string
  | Missed string
  | Built string zap_logger
  | Returned string zap_logger

definition thread_step :: "core \<Rightarrow> addr \<Rightarrow> thread \<Rightarrow> thread \<times> core \<times> addr" where
  "thread_step c h t =
     (case t of
        Calling name \<Rightarrow>
          (case Load (nameToLogger c) name of
             Some logger \<Rightarrow> (Returned name logger, c, h)
           | None \<Rightarrow> (Missed name, c, h))
      | Missed name \<Rightarrow>
          (let (zl, h1) = newNamedLogger c h name in (Built name zl, c, h1))
      | Built name zl \<Rightarrow>
          (let (v, loaded, m) = LoadOrStore (nameToLogger c) name zl
           in (Returned name v, c\<lparr>nameToLogger := m\<rparr>, h))
      | Returned name logger \<Rightarrow> (Returned name logger, c, h))"

record system =
  sys_core :: core
  sys_heap :: addr
  sys_threads :: "thread list"

text \<open>
  \<open>step i\<close> lets thread \<open>i\<close> take its next step (nothing happens when there is no such
  thread); a schedule is the list of the threads chosen, in order.
\<close>

definition step :: "nat \<Rightarrow> system \<Rightarrow> system" where
  "step i s =
     (if i < length (sys_threads s)
      then (case thread_step (sys_core s) (sys_heap s) (sys_threads s ! i) of
              (t, c, h) \<Rightarrow>
                \<lparr>sys_core = c, sys_heap = h, sys_threads = (sys_threads s)[i := t]\<rparr>)
      else s)"

fun run :: "nat list \<Rightarrow> system \<Rightarrow> system" where
  "run [] s = s"
| "run (i # schedule) s = run schedule (step i s)"

definition start :: "core \<Rightarrow> addr \<Rightarrow> string list \<Rightarrow> system" where
  "start c h names = \<lparr>sys_core = c, sys_heap = h, sys_threads = map Calling names\<rparr>"

text \<open>The registry after a sequence of calls of \<open>GetLogger\<close>, one after the other.\<close>

fun GetLoggers :: "core \<Rightarrow> addr \<Rightarrow> string list \<Rightarrow> core \<times> addr" where
  "GetLoggers c h [] = (c, h)"
| "GetLoggers c h (name # names) =
     (case GetLogger c h name of (zl, c', h') \<Rightarrow> GetLoggers c' h' names)"

text \<open>A handle can be logged to when every core of its fan-out has a level enabler.\<close>

definition usable :: "zap_logger \<Rightarrow> bool" where
  "usable zl = (\<forall>zc \<in> set (logger_tee zl). core_enab zc \<noteq> None)"

section \<open>Concrete configurations\<close>

text \<open>
  The vocabulary of severity names used in the examples: the names the backend accepts in
  lower case and in upper case, the empty name standing for \<open>info\<close>.
\<close>

definition zap_vocabulary :: level_parser where
  "zap_vocabulary text =
     (if text = ''debug'' \<or> text = ''DEBUG'' then Some DebugLevel
      else if text = ''info'' \<or> text = ''INFO'' \<or> text = '''' then Some InfoLevel
      else if text = ''warn'' \<or> text = ''WARN'' then Some WarnLevel
      else if text = ''error'' \<or> text = ''ERROR'' then Some ErrorLevel
      else if text = ''dpanic'' \<or> text = ''DPANIC'' then Some DPanicLevel
      else if text = ''panic'' \<or> text = ''PANIC'' then Some PanicLevel
      else if text = ''fatal'' \<or> text = ''FATAL'' then Some FatalLevel
      else None)"

definition appender_A :: appender where
  "appender_A = \<lparr>Encoder = 1, Writer = 2\<rparr>"

definition block_A :: appender_config where
  "block_A = \<lparr>create_result = Inr (Some appender_A), name_result = Inr ''A''\<rparr>"

text \<open>
  The scenario of the specification: appenders \<open>{"console": [{name: "A"}]}\<close>, root
  \<open>{level: "info", refs: ["A"]}\<close>, loggers \<open>[{name: "svc", level: "debug", refs: ["A"]}]\<close>.
\<close>

definition svc_logger :: logger_cfg where
  "svc_logger = \<lparr>Level = ''debug'', AppenderRefs = [''A''], Name = ''svc''\<rparr>"

definition scenario :: config where
  "scenario =
     \<lparr>Appenders = [(''console'', [block_A])],
      Loggers = \<lparr>Root = \<lparr>Level = ''info'', AppenderRefs = [''A'']\<rparr>, Logger = [svc_logger]\<rparr>\<rparr>"

text \<open>The registry of the scenario before its declared logger is built, and after.\<close>

definition scenario_root_core :: core where
  "scenario_root_core =
     \<lparr>nameToLogger = Map.empty, nameToAppender = [''A'' \<mapsto> appender_A],
      rootAppenders = [(''A'', appender_A)],
      rootLevel = Some \<lparr>level_addr = 0, level_value = InfoLevel\<rparr>,
      rootLevelName = ''info'', rootAppenderRefs = [''A'']\<rparr>"

definition svc_handle :: zap_logger where
  "svc_handle =
     \<lparr>logger_addr = 2, logger_name = ''svc'',
      logger_tee = [\<lparr>core_enc = 1, core_ws = 2,
                     core_enab = Some \<lparr>level_addr = 1, level_value = DebugLevel\<rparr>\<rparr>]\<rparr>"

definition scenario_core :: core where
  "scenario_core = scenario_root_core\<lparr>nameToLogger := [''svc'' \<mapsto> svc_handle]\<rparr>"

text \<open>
  The registry that \<open>New_root\<close> returns, written out: \<open>c1\<close> is the registry after the
  appender blocks, \<open>h\<close> the address of the root's level, \<open>v\<close> its severity and \<open>r\<close> the
  root logger block.
\<close>

definition rooted :: "core \<Rightarrow> addr \<Rightarrow> zap_level \<Rightarrow> root_logger \<Rightarrow> core" where
  "rooted c1 h v r =
     \<lparr>nameToLogger = Map.empty, nameToAppender = nameToAppender c1,
      rootAppenders = map (\<lambda>n. (n, the (nameToAppender c1 n))) (remdups (AppenderRefs r)),
      rootLevel = Some \<lparr>level_addr = h, level_value = v\<rparr>,
      rootLevelName = Level r, rootAppenderRefs = remdups (AppenderRefs r)\<rparr>"

text \<open>A configuration with no appender, no root ref and no declared logger.\<close>

definition bare :: config where
  "bare =
     \<lparr>Appenders = [],
      Loggers = \<lparr>Root = \<lparr>Level = ''info'', AppenderRefs = []\<rparr>, Logger = []\<rparr>\<rparr>"

definition bare_core :: core where
  "bare_core = empty_core\<lparr>rootLevel := Some \<lparr>level_addr = 0, level_value = InfoLevel\<rparr>,
                         rootLevelName := ''info''\<rparr>"


text \<open>The name a thread asked for, and how far it has got in its call.\<close>

fun thread_name :: "thread \<Rightarrow> string" where
  "thread_name (Calling name) = name"
| "thread_name (Missed name) = name"
| "thread_name (Built name zl) = name"
| "thread_name (Returned name logger) = name"

fun thread_pc :: "thread \<Rightarrow> nat" where
  "thread_pc (Calling name) = 0"
| "thread_pc (Missed name) = 1"
| "thread_pc (Built name zl) = 2"
| "thread_pc (Returned name logger) = 3"

text \<open>
  The handle that two threads racing for the undeclared name \<open>x\<close> on the scenario's
  registry both return, when the second thread stores first.
\<close>

definition raced_handle :: zap_logger where
  "raced_handle =
     \<lparr>logger_addr = 4, logger_name = ''x'',
      logger_tee = [\<lparr>core_enc = 1, core_ws = 2,
                     core_enab = Some \<lparr>level_addr = 0, level_value = InfoLevel\<rparr>\<rparr>]\<rparr>"

section \<open>Evaluation of the concrete configurations\<close>

lemmas cfg_defs = scenario_def svc_logger_def block_A_def appender_A_def scenario_root_core_def
  scenario_core_def svc_handle_def bare_def bare_core_def

lemmas op_defs = New_def New_root_def loggers_of_def empty_core_def CreateAppender_def
  ConfigName_def putAppender_def getAppender_def createLevel_def MakeStringSet_def ToSlice_def
  newLogger_def effective_levelName_def effective_afs_def build_cores_def NewCore_def NewTee_def
  NewZapLogger_def LoadOrStore_def Load_def zap_vocabulary_def

lemma scenario_New_root:
  "New_root zap_vocabulary 0 (Inr scenario) = Inr (scenario_root_core, 1)"
  by (simp add: cfg_defs op_defs)

lemma scenario_New: "New zap_vocabulary 0 (Inr scenario) = Inr (scenario_core, 3)"
  by (simp add: cfg_defs op_defs numeral_2_eq_2 numeral_3_eq_3)

lemma bare_New: "New zap_vocabulary 0 (Inr bare) = Inr (bare_core, 1)"
  by (simp add: cfg_defs op_defs)

section \<open>The loops of \<open>newLogger\<close> and of \<open>New\<close>\<close>

lemma update_fresh: "k \<notin> fst ` set al \<Longrightarrow> AList.update k v al = al @ [(k, v)]"
  by (induction al) auto

lemma resolve_refs_ok:
  "distinct xs \<Longrightarrow> set xs \<inter> fst ` set am = {} \<Longrightarrow> set xs \<subseteq> dom (nameToAppender c) \<Longrightarrow>
   resolve_refs c xs am = Inr (am @ map (\<lambda>n. (n, the (nameToAppender c n))) xs)"
proof (induction xs arbitrary: am)
  case Nil
  then show ?case by simp
next
  case (Cons a xs)
  from Cons.prems obtain ap where ap: "nameToAppender c a = Some ap" by auto
  have fresh: "a \<notin> fst ` set am" using Cons.prems by auto
  have "set xs \<inter> fst ` set (am @ [(a, ap)]) = {}" using Cons.prems by auto
  then have "resolve_refs c xs (am @ [(a, ap)]) =
      Inr ((am @ [(a, ap)]) @ map (\<lambda>n. (n, the (nameToAppender c n))) xs)"
    using Cons.prems by (intro Cons.IH) auto
  then show ?case using ap fresh by (simp add: getAppender_def update_fresh)
qed

lemma resolve_refs_bad:
  "\<not> set xs \<subseteq> dom (nameToAppender c) \<Longrightarrow>
   \<exists>n \<in> set xs. nameToAppender c n = None \<and> resolve_refs c xs am = Inl (NotFound n)"
proof (induction xs arbitrary: am)
  case Nil
  then show ?case by simp
next
  case (Cons a xs)
  show ?case
  proof (cases "nameToAppender c a")
    case None
    then show ?thesis by (simp add: getAppender_def)
  next
    case (Some ap)
    then have "\<not> set xs \<subseteq> dom (nameToAppender c)" using Cons.prems by auto
    from Cons.IH [OF this, of "AList.update a ap am"] Some show ?thesis
      by (auto simp: getAppender_def)
  qed
qed

lemma newLogger_invalid:
  "parse (effective_levelName c lc) = None \<Longrightarrow>
   newLogger parse c h lc = Inl (InvalidLevel (effective_levelName c lc))"
  by (simp add: newLogger_def createLevel_def)

lemma newLogger_notfound:
  assumes "parse (effective_levelName c lc) \<noteq> None"
    and "\<not> set (effective_afs c lc) \<subseteq> dom (nameToAppender c)"
  shows "\<exists>n \<in> set (effective_afs c lc). nameToAppender c n = None \<and>
           newLogger parse c h lc = Inl (NotFound n)"
proof -
  have "\<not> set (MakeStringSet (effective_afs c lc)) \<subseteq> dom (nameToAppender c)"
    using assms(2) by (simp add: MakeStringSet_def)
  from resolve_refs_bad [OF this, of "[]"] assms(1) show ?thesis
    by (auto simp: newLogger_def createLevel_def MakeStringSet_def)
qed

lemma newLogger_empty:
  "parse (effective_levelName c lc) \<noteq> None \<Longrightarrow> effective_afs c lc = [] \<Longrightarrow>
   newLogger parse c h lc = Inl NoAppenders"
  by (auto simp: newLogger_def createLevel_def MakeStringSet_def)

lemma newLogger_ok:
  assumes "parse (effective_levelName c lc) = Some v"
    and "set (effective_afs c lc) \<subseteq> dom (nameToAppender c)"
    and "effective_afs c lc \<noteq> []"
  shows "newLogger parse c h lc =
     Inr (\<lparr>logger_addr = h + 1, logger_name = Name lc,
           logger_tee = map (\<lambda>n. NewCore (Encoder (the (nameToAppender c n)))
                                   (Writer (the (nameToAppender c n)))
                                   (Some \<lparr>level_addr = h, level_value = v\<rparr>))
                            (remdups (effective_afs c lc))\<rparr>, h + 2)"
proof -
  have "resolve_refs c (remdups (effective_afs c lc)) [] =
          Inr ([] @ map (\<lambda>n. (n, the (nameToAppender c n))) (remdups (effective_afs c lc)))"
    using assms(2) by (intro resolve_refs_ok) auto
  then show ?thesis using assms(1,3)
    by (simp add: newLogger_def createLevel_def MakeStringSet_def NewZapLogger_def NewTee_def
        build_cores_def comp_def)
qed

lemma putAppender_frame:
  "putAppender c name a = (None, c') \<Longrightarrow> \<exists>m. c' = c\<lparr>nameToAppender := m\<rparr>"
  by (auto simp: putAppender_def split: if_splits option.splits)

lemma put_configs_frame:
  "put_configs c t bs = Inr c' \<Longrightarrow> \<exists>m. c' = c\<lparr>nameToAppender := m\<rparr>"
proof (induction bs arbitrary: c)
  case Nil
  then have "c' = c\<lparr>nameToAppender := nameToAppender c\<rparr>" by simp
  then show ?case by blast
next
  case (Cons b bs)
  from Cons.prems obtain a name c1 where
    put: "putAppender c name a = (None, c1)" and rest: "put_configs c1 t bs = Inr c'"
    by (auto split: sum.splits prod.splits option.splits)
  from putAppender_frame [OF put] obtain m1 where c1: "c1 = c\<lparr>nameToAppender := m1\<rparr>" by blast
  from Cons.IH [OF rest] obtain m where "c' = c1\<lparr>nameToAppender := m\<rparr>" by blast
  with c1 have "c' = c\<lparr>nameToAppender := m\<rparr>" by simp
  then show ?case by blast
qed

lemma put_groups_frame:
  "put_groups c gs = Inr c' \<Longrightarrow> \<exists>m. c' = c\<lparr>nameToAppender := m\<rparr>"
proof (induction gs arbitrary: c)
  case Nil
  then have "c' = c\<lparr>nameToAppender := nameToAppender c\<rparr>" by simp
  then show ?case by blast
next
  case (Cons g gs)
  obtain t bs where g: "g = (t, bs)" by (cases g)
  from Cons.prems g obtain c1 where
    one: "put_configs c t bs = Inr c1" and rest: "put_groups c1 gs = Inr c'"
    by (auto split: sum.splits)
  from put_configs_frame [OF one] obtain m1 where c1: "c1 = c\<lparr>nameToAppender := m1\<rparr>" by blast
  from Cons.IH [OF rest] obtain m where "c' = c1\<lparr>nameToAppender := m\<rparr>" by blast
  with c1 have "c' = c\<lparr>nameToAppender := m\<rparr>" by simp
  then show ?case by blast
qed

lemma root_refs_loop_ok:
  "distinct xs \<Longrightarrow> set xs \<inter> fst ` set (rootAppenders c) = {} \<Longrightarrow>
   set xs \<subseteq> dom (nameToAppender c) \<Longrightarrow>
   root_refs_loop c xs =
     Inr (c\<lparr>rootAppenders := rootAppenders c @ map (\<lambda>n. (n, the (nameToAppender c n))) xs\<rparr>)"
proof (induction xs arbitrary: c)
  case Nil
  then show ?case by simp
next
  case (Cons a xs)
  from Cons.prems obtain ap where ap: "nameToAppender c a = Some ap" by auto
  have fresh: "a \<notin> fst ` set (rootAppenders c)" using Cons.prems by auto
  let ?c = "c\<lparr>rootAppenders := rootAppenders c @ [(a, ap)]\<rparr>"
  have "root_refs_loop ?c xs =
      Inr (?c\<lparr>rootAppenders := rootAppenders ?c @ map (\<lambda>n. (n, the (nameToAppender ?c n))) xs\<rparr>)"
    using Cons.prems by (intro Cons.IH) auto
  then show ?case using ap fresh by (simp add: getAppender_def update_fresh)
qed

lemma root_refs_loop_bad:
  "\<not> set xs \<subseteq> dom (nameToAppender c) \<Longrightarrow>
   \<exists>n \<in> set xs. nameToAppender c n = None \<and> root_refs_loop c xs = Inl (NotFound n)"
proof (induction xs arbitrary: c)
  case Nil
  then show ?case by simp
next
  case (Cons a xs)
  show ?case
  proof (cases "nameToAppender c a")
    case None
    then show ?thesis by (simp add: getAppender_def)
  next
    case (Some ap)
    let ?c = "c\<lparr>rootAppenders := AList.update a ap (rootAppenders c)\<rparr>"
    have "\<not> set xs \<subseteq> dom (nameToAppender ?c)" using Cons.prems Some by auto
    from Cons.IH [OF this] Some show ?thesis
      by (auto simp: getAppender_def)
  qed
qed

lemma put_groups_empty_core:
  "put_groups empty_core gs = Inr c1 \<Longrightarrow> c1 = empty_core\<lparr>nameToAppender := nameToAppender c1\<rparr>"
  by (drule put_groups_frame) auto

lemma New_root_ok:
  assumes "put_groups empty_core (Appenders cfg) = Inr c1"
    and "parse (Level (Root (Loggers cfg))) = Some v"
    and "set (AppenderRefs (Root (Loggers cfg))) \<subseteq> dom (nameToAppender c1)"
  shows "New_root parse h (Inr cfg) = Inr (rooted c1 h v (Root (Loggers cfg)), h + 1)"
proof -
  let ?r = "Root (Loggers cfg)"
  let ?c2 = "c1\<lparr>rootLevel := Some \<lparr>level_addr = h, level_value = v\<rparr>, rootLevelName := Level ?r\<rparr>"
  have c1: "c1 = empty_core\<lparr>nameToAppender := nameToAppender c1\<rparr>"
    using assms(1) by (rule put_groups_empty_core)
  have ra: "rootAppenders c1 = []" by (subst c1) (simp add: empty_core_def)
  have "root_refs_loop ?c2 (remdups (AppenderRefs ?r)) =
      Inr (?c2\<lparr>rootAppenders := rootAppenders ?c2 @
              map (\<lambda>n. (n, the (nameToAppender ?c2 n))) (remdups (AppenderRefs ?r))\<rparr>)"
    using assms(3) ra by (intro root_refs_loop_ok) auto
  moreover have "?c2\<lparr>rootAppenders := rootAppenders ?c2 @
              map (\<lambda>n. (n, the (nameToAppender ?c2 n))) (remdups (AppenderRefs ?r)),
            rootAppenderRefs := remdups (AppenderRefs ?r)\<rparr> = rooted c1 h v ?r"
    by (subst (1 2) c1) (simp add: empty_core_def rooted_def)
  ultimately show ?thesis using assms(1,2)
    by (simp add: New_root_def createLevel_def MakeStringSet_def ToSlice_def)
qed

lemma New_root_Inr:
  assumes "New_root parse h raw = Inr (c, h1)"
  obtains cfg c1 v where "raw = Inr cfg" and "put_groups empty_core (Appenders cfg) = Inr c1"
    and "parse (Level (Root (Loggers cfg))) = Some v"
    and "set (AppenderRefs (Root (Loggers cfg))) \<subseteq> dom (nameToAppender c1)"
    and "c = rooted c1 h v (Root (Loggers cfg))" and "h1 = h + 1"
proof -
  from assms obtain cfg where raw: "raw = Inr cfg"
    by (cases raw) (auto simp: New_root_def)
  from assms raw obtain c1 where pg: "put_groups empty_core (Appenders cfg) = Inr c1"
    by (cases "put_groups empty_core (Appenders cfg)") (auto simp: New_root_def)
  from assms raw pg obtain v where v: "parse (Level (Root (Loggers cfg))) = Some v"
    by (cases "parse (Level (Root (Loggers cfg)))") (auto simp: New_root_def createLevel_def)
  have sub: "set (AppenderRefs (Root (Loggers cfg))) \<subseteq> dom (nameToAppender c1)"
  proof (rule ccontr)
    let ?c2 = "c1\<lparr>rootLevel := Some \<lparr>level_addr = h, level_value = v\<rparr>,
                   rootLevelName := Level (Root (Loggers cfg))\<rparr>"
    assume "\<not> ?thesis"
    then have "\<not> set (remdups (AppenderRefs (Root (Loggers cfg)))) \<subseteq> dom (nameToAppender ?c2)"
      by simp
    from root_refs_loop_bad [OF this] obtain n where
      "root_refs_loop ?c2 (remdups (AppenderRefs (Root (Loggers cfg)))) = Inl (NotFound n)"
      by blast
    with assms raw pg v show False
      by (simp add: New_root_def createLevel_def MakeStringSet_def)
  qed
  have "New_root parse h (Inr cfg) = Inr (rooted c1 h v (Root (Loggers cfg)), h + 1)"
    using pg v sub by (rule New_root_ok)
  with assms raw have "c = rooted c1 h v (Root (Loggers cfg))" and "h1 = h + 1"
    by simp_all
  with raw pg v sub show ?thesis by (rule that)
qed

lemma resolve_refs_cong:
  "nameToAppender c = nameToAppender c' \<Longrightarrow> resolve_refs c xs am = resolve_refs c' xs am"
  by (induction xs arbitrary: am) (auto simp: getAppender_def split: option.splits)

lemma newLogger_cong:
  "nameToAppender c = nameToAppender c' \<Longrightarrow> rootLevelName c = rootLevelName c' \<Longrightarrow>
   rootAppenderRefs c = rootAppenderRefs c' \<Longrightarrow>
   newLogger parse c h lc = newLogger parse c' h lc"
  by (simp add: newLogger_def effective_levelName_def effective_afs_def
      resolve_refs_cong [of c c'] split: sum.splits prod.splits)

lemma newLogger_Inr:
  assumes "newLogger parse c h lc = Inr (l, h')"
  shows "\<exists>v. parse (effective_levelName c lc) = Some v \<and>
           set (effective_afs c lc) \<subseteq> dom (nameToAppender c) \<and> effective_afs c lc \<noteq> [] \<and>
           l = \<lparr>logger_addr = h + 1, logger_name = Name lc,
                logger_tee = map (\<lambda>n. NewCore (Encoder (the (nameToAppender c n)))
                                   (Writer (the (nameToAppender c n)))
                                   (Some \<lparr>level_addr = h, level_value = v\<rparr>))
                            (remdups (effective_afs c lc))\<rparr> \<and> h' = h + 2"
proof -
  from assms obtain v where v: "parse (effective_levelName c lc) = Some v"
    using newLogger_invalid [of parse c lc h] by (cases "parse (effective_levelName c lc)") auto
  have sub: "set (effective_afs c lc) \<subseteq> dom (nameToAppender c)"
    using newLogger_notfound [of parse c lc h] assms v by auto
  have ne: "effective_afs c lc \<noteq> []"
    using newLogger_empty [of parse c lc h] assms v by auto
  have "newLogger parse c h lc =
     Inr (\<lparr>logger_addr = h + 1, logger_name = Name lc,
           logger_tee = map (\<lambda>n. NewCore (Encoder (the (nameToAppender c n)))
                                   (Writer (the (nameToAppender c n)))
                                   (Some \<lparr>level_addr = h, level_value = v\<rparr>))
                            (remdups (effective_afs c lc))\<rparr>, h + 2)"
    using v sub ne by (rule newLogger_ok)
  with assms show ?thesis using v sub ne by simp
qed

lemma newLogger_any_heap:
  assumes "newLogger parse c h lc = Inr r"
  shows "\<exists>r'. newLogger parse c h' lc = Inr r'"
proof -
  obtain l h1 where "r = (l, h1)" by (cases r)
  with assms newLogger_Inr [of parse c h lc l h1] obtain v where
    v: "parse (effective_levelName c lc) = Some v"
    "set (effective_afs c lc) \<subseteq> dom (nameToAppender c)" "effective_afs c lc \<noteq> []"
    by auto
  then show ?thesis by (simp add: newLogger_ok [where v = v])
qed

lemma loggers_loop_frame:
  "loggers_loop parse c h ls = Inr (c', h') \<Longrightarrow> \<exists>m. c' = c\<lparr>nameToLogger := m\<rparr>"
proof (induction ls arbitrary: c h)
  case Nil
  then have "c' = c\<lparr>nameToLogger := nameToLogger c\<rparr>" by simp
  then show ?case by blast
next
  case (Cons lc ls)
  from Cons.prems obtain l h1 where
    rest: "loggers_loop parse (c\<lparr>nameToLogger := (nameToLogger c)(Name lc \<mapsto> l)\<rparr>) h1 ls = Inr (c', h')"
    by (auto simp: LoadOrStore_def split: sum.splits option.splits if_splits)
  from Cons.IH [OF rest] obtain m where
    "c' = c\<lparr>nameToLogger := (nameToLogger c)(Name lc \<mapsto> l)\<rparr>\<lparr>nameToLogger := m\<rparr>" by blast
  then have "c' = c\<lparr>nameToLogger := m\<rparr>" by simp
  then show ?case by blast
qed

lemma loggers_loop_Cons_Inr:
  assumes "loggers_loop parse c h (lc # ls) = Inr (c', h')"
  shows "\<exists>l h1. newLogger parse c h lc = Inr (l, h1) \<and> nameToLogger c (Name lc) = None \<and>
           loggers_loop parse (c\<lparr>nameToLogger := (nameToLogger c)(Name lc \<mapsto> l)\<rparr>) h1 ls
             = Inr (c', h')"
  using assms by (auto simp: LoadOrStore_def split: sum.splits option.splits if_splits)


lemma loggers_loop_stored:
  "loggers_loop parse c h ls = Inr (c', h') \<Longrightarrow> nameToLogger c' name = Some l \<Longrightarrow>
   nameToLogger c name = Some l \<or>
   (\<exists>lc \<in> set ls. \<exists>h0 h1. h \<le> h0 \<and> Name lc = name \<and> newLogger parse c h0 lc = Inr (l, h1))"
proof (induction ls arbitrary: c h)
  case Nil
  then show ?case by simp
next
  case (Cons lc ls)
  from loggers_loop_Cons_Inr [OF Cons.prems(1)] obtain l0 h1 where
    nl: "newLogger parse c h lc = Inr (l0, h1)" and
    rest: "loggers_loop parse (c\<lparr>nameToLogger := (nameToLogger c)(Name lc \<mapsto> l0)\<rparr>) h1 ls
             = Inr (c', h')"
    by blast
  let ?c1 = "c\<lparr>nameToLogger := (nameToLogger c)(Name lc \<mapsto> l0)\<rparr>"
  have h1: "h1 = h + 2" using newLogger_Inr [OF nl] by auto
  have same: "\<And>h0 x. newLogger parse ?c1 h0 x = newLogger parse c h0 x"
    by (rule newLogger_cong) simp_all
  from Cons.IH [OF rest Cons.prems(2)] consider
      "nameToLogger ?c1 name = Some l"
    | "\<exists>lc' \<in> set ls. \<exists>h0 h2. h1 \<le> h0 \<and> Name lc' = name \<and>
          newLogger parse c h0 lc' = Inr (l, h2)"
    unfolding same by blast
  then show ?case
  proof cases
    case 1
    show ?thesis
    proof (cases "name = Name lc")
      case True
      with 1 have "l = l0" by simp
      with nl True show ?thesis by auto
    next
      case False
      with 1 show ?thesis by simp
    qed
  next
    case 2
    then obtain lc' h0 h2 where "lc' \<in> set ls" "h1 \<le> h0" "Name lc' = name"
      "newLogger parse c h0 lc' = Inr (l, h2)" by blast
    moreover have "h \<le> h0" using \<open>h1 \<le> h0\<close> h1 by simp
    ultimately show ?thesis by auto
  qed
qed

lemma loggers_loop_dom:
  "loggers_loop parse c h ls = Inr (c', h') \<Longrightarrow>
   distinct (map Name ls) \<and> set (map Name ls) \<inter> dom (nameToLogger c) = {} \<and>
   dom (nameToLogger c') = dom (nameToLogger c) \<union> set (map Name ls) \<and>
   (\<forall>n. nameToLogger c n \<noteq> None \<longrightarrow> nameToLogger c' n = nameToLogger c n)"
proof (induction ls arbitrary: c h)
  case Nil
  then show ?case by simp
next
  case (Cons lc ls)
  from loggers_loop_Cons_Inr [OF Cons.prems(1)] obtain l0 h1 where
    none: "nameToLogger c (Name lc) = None" and
    rest: "loggers_loop parse (c\<lparr>nameToLogger := (nameToLogger c)(Name lc \<mapsto> l0)\<rparr>) h1 ls
             = Inr (c', h')"
    by blast
  from Cons.IH [OF rest] none show ?case by (auto split: if_splits)
qed



lemma resolve_refs_nothing:
  assumes "resolve_refs c (remdups xs) [] = Inr []"
  shows "xs = []"
proof (rule ccontr)
  assume ne: "xs \<noteq> []"
  show False
  proof (cases "set (remdups xs) \<subseteq> dom (nameToAppender c)")
    case True
    have "resolve_refs c (remdups xs) [] =
        Inr ([] @ map (\<lambda>n. (n, the (nameToAppender c n))) (remdups xs))"
      using True by (intro resolve_refs_ok) auto
    with assms ne show False by simp
  next
    case False
    from resolve_refs_bad [OF False, of "[]"] assms show False by auto
  qed
qed

section \<open>The appender registry\<close>




section \<open>The logger factory\<close>

text \<open>
  C6 (as amended). When the effective refs of a declaration resolve to no appender at all,
  \<open>newLogger\<close> never produces a handle: it fails with \<open>NoAppenders\<close> when the effective
  level name is recognised, and with \<open>InvalidLevel\<close> otherwise, the level being created
  before the appenders are looked at.
\<close>

theorem newLogger_no_appenders:
  assumes "resolve_refs c (MakeStringSet (effective_afs c lc)) [] = Inr []"
  shows "(\<exists>e. newLogger parse c h lc = Inl e) \<and>
         (parse (effective_levelName c lc) \<noteq> None \<longrightarrow> newLogger parse c h lc = Inl NoAppenders) \<and>
         (parse (effective_levelName c lc) = None \<longrightarrow>
            newLogger parse c h lc = Inl (InvalidLevel (effective_levelName c lc)))"
proof -
  have "effective_afs c lc = []"
    using assms unfolding MakeStringSet_def by (rule resolve_refs_nothing)
  then show ?thesis
    using newLogger_empty [of parse c lc h] newLogger_invalid [of parse c lc h] by auto
qed

theorem newLogger_no_appenders_witness:
  "resolve_refs bare_core
      (MakeStringSet (effective_afs bare_core \<lparr>Level = ''debug'', AppenderRefs = [], Name = ''svc''\<rparr>)) []
     = Inr [] \<and>
   newLogger zap_vocabulary bare_core 1 \<lparr>Level = ''debug'', AppenderRefs = [], Name = ''svc''\<rparr>
     = Inl NoAppenders"
proof -
  let ?lc = "\<lparr>Level = ''debug'', AppenderRefs = [], Name = ''svc''\<rparr>"
  have h: "resolve_refs bare_core (MakeStringSet (effective_afs bare_core ?lc)) [] = Inr []"
    by (simp add: effective_afs_def MakeStringSet_def bare_core_def empty_core_def)
  have v: "zap_vocabulary (effective_levelName bare_core ?lc) \<noteq> None"
    by (simp add: effective_levelName_def zap_vocabulary_def)
  show ?thesis
    using h v newLogger_no_appenders [OF h, where parse = zap_vocabulary and h = 1] by simp
qed

text \<open>
  Counterexample to C6 as stated: a declaration with no refs, under a root with no refs,
  and with the level name \<open>bogus\<close> fails with \<open>InvalidLevel\<close>, not with \<open>NoAppenders\<close>.
\<close>

theorem newLogger_invalid_level_before_appenders:
  "resolve_refs bare_core
      (MakeStringSet (effective_afs bare_core \<lparr>Level = ''bogus'', AppenderRefs = [], Name = ''svc''\<rparr>)) []
     = Inr [] \<and>
   newLogger zap_vocabulary bare_core 1 \<lparr>Level = ''bogus'', AppenderRefs = [], Name = ''svc''\<rparr>
     = Inl (InvalidLevel ''bogus'') \<and>
   newLogger zap_vocabulary bare_core 1 \<lparr>Level = ''bogus'', AppenderRefs = [], Name = ''svc''\<rparr>
     \<noteq> Inl NoAppenders"
  by (simp add: cfg_defs op_defs)






lemma tee_set:
  "set (map (\<lambda>n. NewCore (Encoder (the (m n))) (Writer (the (m n))) lv) (remdups xs)) =
   (\<lambda>n. NewCore (Encoder (the (m n))) (Writer (the (m n))) lv) ` set xs"
  by simp

lemma newLogger_refs_as_set:
  assumes refs: "set (AppenderRefs lc1) = set (AppenderRefs lc2)"
    and lev: "Level lc1 = Level lc2" and name: "Name lc1 = Name lc2"
  shows "case (newLogger parse c h lc1, newLogger parse c h lc2) of
           (Inr (l1, h1), Inr (l2, h2)) \<Rightarrow>
             set (logger_tee l1) = set (logger_tee l2) \<and>
             length (logger_tee l1) = card (set (effective_afs c lc1)) \<and>
             length (logger_tee l2) = card (set (effective_afs c lc1)) \<and>
             logger_name l1 = logger_name l2
         | (Inl e1, Inl e2) \<Rightarrow> e1 = e2 \<or> (\<exists>n1 n2. e1 = NotFound n1 \<and> e2 = NotFound n2)
         | _ \<Rightarrow> False"
proof -
  have el: "effective_levelName c lc1 = effective_levelName c lc2"
    using lev by (simp add: effective_levelName_def)
  have "AppenderRefs lc1 = [] \<longleftrightarrow> AppenderRefs lc2 = []"
    using refs by (metis set_empty)
  then have ea: "set (effective_afs c lc1) = set (effective_afs c lc2)"
    using refs by (auto simp: effective_afs_def)
  then have ne: "effective_afs c lc1 = [] \<longleftrightarrow> effective_afs c lc2 = []"
    by (metis set_empty)
  show ?thesis
  proof (cases "parse (effective_levelName c lc1)")
    case None
    then show ?thesis
      using el newLogger_invalid [of parse c lc1 h] newLogger_invalid [of parse c lc2 h] by simp
  next
    case (Some v)
    show ?thesis
    proof (cases "set (effective_afs c lc1) \<subseteq> dom (nameToAppender c)")
      case False
      then obtain n1 n2 where "newLogger parse c h lc1 = Inl (NotFound n1)"
        "newLogger parse c h lc2 = Inl (NotFound n2)"
        using Some el ea newLogger_notfound [of parse c lc1 h] newLogger_notfound [of parse c lc2 h]
        by auto
      then show ?thesis by simp
    next
      case True
      show ?thesis
      proof (cases "effective_afs c lc1 = []")
        case True
        then show ?thesis
          using Some el ne newLogger_empty [of parse c lc1 h] newLogger_empty [of parse c lc2 h]
          by simp
      next
        case False
        have 1: "newLogger parse c h lc1 =
            Inr (\<lparr>logger_addr = h + 1, logger_name = Name lc1,
              logger_tee = map (\<lambda>n. NewCore (Encoder (the (nameToAppender c n)))
                                   (Writer (the (nameToAppender c n)))
                                   (Some \<lparr>level_addr = h, level_value = v\<rparr>))
                            (remdups (effective_afs c lc1))\<rparr>, h + 2)"
          using Some True False by (rule newLogger_ok)
        have "parse (effective_levelName c lc2) = Some v" using Some el by simp
        moreover have "set (effective_afs c lc2) \<subseteq> dom (nameToAppender c)" using True ea by simp
        moreover have "effective_afs c lc2 \<noteq> []" using False ne by simp
        ultimately have 2: "newLogger parse c h lc2 =
            Inr (\<lparr>logger_addr = h + 1, logger_name = Name lc2,
              logger_tee = map (\<lambda>n. NewCore (Encoder (the (nameToAppender c n)))
                                   (Writer (the (nameToAppender c n)))
                                   (Some \<lparr>level_addr = h, level_value = v\<rparr>))
                            (remdups (effective_afs c lc2))\<rparr>, h + 2)"
          by (rule newLogger_ok)
        show ?thesis
          unfolding 1 2 using ea name
          by (simp add: length_remdups_card_conv del: set_map set_remdups)
             (simp only: tee_set ea)
      qed
    qed
  qed
qed

lemma New_root_put_fail:
  "put_groups empty_core (Appenders cfg) = Inl e \<Longrightarrow> New_root parse h (Inr cfg) = Inl e"
  by (simp add: New_root_def)

lemma New_root_invalid:
  "put_groups empty_core (Appenders cfg) = Inr c1 \<Longrightarrow>
   parse (Level (Root (Loggers cfg))) = None \<Longrightarrow>
   New_root parse h (Inr cfg) = Inl (InvalidLevel (Level (Root (Loggers cfg))))"
  by (simp add: New_root_def createLevel_def)

lemma New_root_notfound:
  assumes "put_groups empty_core (Appenders cfg) = Inr c1"
    and "parse (Level (Root (Loggers cfg))) = Some v"
    and "\<not> set (AppenderRefs (Root (Loggers cfg))) \<subseteq> dom (nameToAppender c1)"
  shows "\<exists>n \<in> set (AppenderRefs (Root (Loggers cfg))). nameToAppender c1 n = None \<and>
           New_root parse h (Inr cfg) = Inl (NotFound n)"
proof -
  let ?c2 = "c1\<lparr>rootLevel := Some \<lparr>level_addr = h, level_value = v\<rparr>,
                 rootLevelName := Level (Root (Loggers cfg))\<rparr>"
  have "\<not> set (remdups (AppenderRefs (Root (Loggers cfg)))) \<subseteq> dom (nameToAppender ?c2)"
    using assms(3) by simp
  from root_refs_loop_bad [OF this] obtain n where
    "n \<in> set (AppenderRefs (Root (Loggers cfg)))" "nameToAppender c1 n = None"
    "root_refs_loop ?c2 (remdups (AppenderRefs (Root (Loggers cfg)))) = Inl (NotFound n)"
    by auto
  then show ?thesis using assms(1,2)
    by (auto simp: New_root_def createLevel_def MakeStringSet_def)
qed

lemma rooted_set:
  "set (AppenderRefs r1) = set (AppenderRefs r2) \<Longrightarrow> Level r1 = Level r2 \<Longrightarrow>
   set (rootAppenders (rooted c1 h v r1)) = set (rootAppenders (rooted c1 h v r2)) \<and>
   distinct (map fst (rootAppenders (rooted c1 h v r1))) \<and>
   set (rootAppenderRefs (rooted c1 h v r1)) = set (rootAppenderRefs (rooted c1 h v r2)) \<and>
   distinct (rootAppenderRefs (rooted c1 h v r1)) \<and>
   set (rootAppenderRefs (rooted c1 h v r1)) = set (AppenderRefs r1) \<and>
   set (logger_tee (fst (newNamedLogger (rooted c1 h v r1) h' name))) =
   set (logger_tee (fst (newNamedLogger (rooted c1 h v r2) h' name)))"
  by (simp add: rooted_def comp_def newNamedLogger_def NewZapLogger_def NewTee_def build_cores_def)

lemma New_root_refs_as_set:
  assumes apps: "Appenders cfg1 = Appenders cfg2"
    and lev: "Level (Root (Loggers cfg1)) = Level (Root (Loggers cfg2))"
    and refs: "set (AppenderRefs (Root (Loggers cfg1))) = set (AppenderRefs (Root (Loggers cfg2)))"
  shows "case (New_root parse h (Inr cfg1), New_root parse h (Inr cfg2)) of
           (Inr (c1, h1), Inr (c2, h2)) \<Rightarrow>
             set (rootAppenders c1) = set (rootAppenders c2) \<and>
             distinct (map fst (rootAppenders c1)) \<and> distinct (map fst (rootAppenders c2)) \<and>
             set (rootAppenderRefs c1) = set (rootAppenderRefs c2) \<and>
             distinct (rootAppenderRefs c1) \<and> distinct (rootAppenderRefs c2) \<and>
             set (rootAppenderRefs c1) = set (AppenderRefs (Root (Loggers cfg1))) \<and>
             (\<forall>h' name. set (logger_tee (fst (newNamedLogger c1 h' name))) =
                         set (logger_tee (fst (newNamedLogger c2 h' name))))
         | (Inl e1, Inl e2) \<Rightarrow> e1 = e2 \<or> (\<exists>n1 n2. e1 = NotFound n1 \<and> e2 = NotFound n2)
         | _ \<Rightarrow> False"
proof (cases "put_groups empty_core (Appenders cfg1)")
  case (Inl e)
  then show ?thesis
    using apps New_root_put_fail [of cfg1 e parse h] New_root_put_fail [of cfg2 e parse h] by simp
next
  case (Inr c1)
  then have pg2: "put_groups empty_core (Appenders cfg2) = Inr c1" using apps by simp
  show ?thesis
  proof (cases "parse (Level (Root (Loggers cfg1)))")
    case None
    then show ?thesis
      using lev New_root_invalid [where parse = parse and h = h, OF Inr]
        New_root_invalid [where parse = parse and h = h, OF pg2] by simp
  next
    case (Some v)
    then have v2: "parse (Level (Root (Loggers cfg2))) = Some v" using lev by simp
    show ?thesis
    proof (cases "set (AppenderRefs (Root (Loggers cfg1))) \<subseteq> dom (nameToAppender c1)")
      case False
      then have "\<not> set (AppenderRefs (Root (Loggers cfg2))) \<subseteq> dom (nameToAppender c1)"
        using refs by simp
      from New_root_notfound [where parse = parse and h = h, OF Inr Some False]
        New_root_notfound [where parse = parse and h = h, OF pg2 v2 this]
      show ?thesis by auto
    next
      case True
      then have "set (AppenderRefs (Root (Loggers cfg2))) \<subseteq> dom (nameToAppender c1)"
        using refs by simp
      from New_root_ok [where parse = parse and h = h, OF Inr Some True]
        New_root_ok [where parse = parse and h = h, OF pg2 v2 this]
        rooted_set [OF refs lev, of c1 h v] rooted_set [OF refs [symmetric] lev [symmetric], of c1 h v]
      show ?thesis by simp
    qed
  qed
qed



text \<open>
  C8. Two declarations that differ only in the order and the multiplicity of their refs
  are built alike: both fail, or both succeed with the same set of cores, one core for
  each distinct effective ref. The root's refs are treated in the same way: two
  configurations that differ only in the order and the multiplicity of the root's refs
  give the same set of root appenders, a list of root refs without repetition, and the
  same fan-out for every implicit logger.
\<close>

theorem appender_refs_as_set:
  "(set (AppenderRefs lc1) = set (AppenderRefs lc2) \<and> Level lc1 = Level lc2 \<and>
    Name lc1 = Name lc2 \<longrightarrow>
      (case (newLogger parse c h lc1, newLogger parse c h lc2) of
         (Inr (l1, h1), Inr (l2, h2)) \<Rightarrow>
           set (logger_tee l1) = set (logger_tee l2) \<and>
           length (logger_tee l1) = card (set (effective_afs c lc1)) \<and>
           length (logger_tee l2) = card (set (effective_afs c lc1)) \<and>
           logger_name l1 = logger_name l2
       | (Inl e1, Inl e2) \<Rightarrow> e1 = e2 \<or> (\<exists>n1 n2. e1 = NotFound n1 \<and> e2 = NotFound n2)
       | _ \<Rightarrow> False)) \<and>
   (Appenders cfg1 = Appenders cfg2 \<and>
    Level (Root (Loggers cfg1)) = Level (Root (Loggers cfg2)) \<and>
    set (AppenderRefs (Root (Loggers cfg1))) = set (AppenderRefs (Root (Loggers cfg2))) \<longrightarrow>
      (case (New_root parse h (Inr cfg1), New_root parse h (Inr cfg2)) of
         (Inr (c1, h1), Inr (c2, h2)) \<Rightarrow>
           set (rootAppenders c1) = set (rootAppenders c2) \<and>
           distinct (map fst (rootAppenders c1)) \<and> distinct (map fst (rootAppenders c2)) \<and>
           set (rootAppenderRefs c1) = set (rootAppenderRefs c2) \<and>
           distinct (rootAppenderRefs c1) \<and> distinct (rootAppenderRefs c2) \<and>
           set (rootAppenderRefs c1) = set (AppenderRefs (Root (Loggers cfg1))) \<and>
           (\<forall>h' name. set (logger_tee (fst (newNamedLogger c1 h' name))) =
                       set (logger_tee (fst (newNamedLogger c2 h' name))))
       | (Inl e1, Inl e2) \<Rightarrow> e1 = e2 \<or> (\<exists>n1 n2. e1 = NotFound n1 \<and> e2 = NotFound n2)
       | _ \<Rightarrow> False))"
proof (intro conjI impI)
  assume "set (AppenderRefs lc1) = set (AppenderRefs lc2) \<and> Level lc1 = Level lc2 \<and>
    Name lc1 = Name lc2"
  then have "set (AppenderRefs lc1) = set (AppenderRefs lc2)" "Level lc1 = Level lc2"
    "Name lc1 = Name lc2" by simp_all
  then show "case (newLogger parse c h lc1, newLogger parse c h lc2) of
         (Inr (l1, h1), Inr (l2, h2)) \<Rightarrow>
           set (logger_tee l1) = set (logger_tee l2) \<and>
           length (logger_tee l1) = card (set (effective_afs c lc1)) \<and>
           length (logger_tee l2) = card (set (effective_afs c lc1)) \<and>
           logger_name l1 = logger_name l2
       | (Inl e1, Inl e2) \<Rightarrow> e1 = e2 \<or> (\<exists>n1 n2. e1 = NotFound n1 \<and> e2 = NotFound n2)
       | _ \<Rightarrow> False"
    by (rule newLogger_refs_as_set)
next
  assume "Appenders cfg1 = Appenders cfg2 \<and>
    Level (Root (Loggers cfg1)) = Level (Root (Loggers cfg2)) \<and>
    set (AppenderRefs (Root (Loggers cfg1))) = set (AppenderRefs (Root (Loggers cfg2)))"
  then have "Appenders cfg1 = Appenders cfg2"
    "Level (Root (Loggers cfg1)) = Level (Root (Loggers cfg2))"
    "set (AppenderRefs (Root (Loggers cfg1))) = set (AppenderRefs (Root (Loggers cfg2)))"
    by simp_all
  then show "case (New_root parse h (Inr cfg1), New_root parse h (Inr cfg2)) of
         (Inr (c1, h1), Inr (c2, h2)) \<Rightarrow>
           set (rootAppenders c1) = set (rootAppenders c2) \<and>
           distinct (map fst (rootAppenders c1)) \<and> distinct (map fst (rootAppenders c2)) \<and>
           set (rootAppenderRefs c1) = set (rootAppenderRefs c2) \<and>
           distinct (rootAppenderRefs c1) \<and> distinct (rootAppenderRefs c2) \<and>
           set (rootAppenderRefs c1) = set (AppenderRefs (Root (Loggers cfg1))) \<and>
           (\<forall>h' name. set (logger_tee (fst (newNamedLogger c1 h' name))) =
                       set (logger_tee (fst (newNamedLogger c2 h' name))))
       | (Inl e1, Inl e2) \<Rightarrow> e1 = e2 \<or> (\<exists>n1 n2. e1 = NotFound n1 \<and> e2 = NotFound n2)
       | _ \<Rightarrow> False"
    by (rule New_root_refs_as_set)
qed

theorem appender_refs_as_set_witness:
  "set (AppenderRefs (svc_logger\<lparr>AppenderRefs := [''A'', ''A'']\<rparr>)) = set (AppenderRefs svc_logger) \<and>
   newLogger zap_vocabulary scenario_root_core 1 (svc_logger\<lparr>AppenderRefs := [''A'', ''A'']\<rparr>)
     = Inr (svc_handle, 3) \<and>
   newLogger zap_vocabulary scenario_root_core 1 svc_logger = Inr (svc_handle, 3) \<and>
   length (logger_tee svc_handle)
     = card (set (effective_afs scenario_root_core (svc_logger\<lparr>AppenderRefs := [''A'', ''A'']\<rparr>))) \<and>
   New_root zap_vocabulary 0
     (Inr (scenario\<lparr>Loggers := (Loggers scenario)\<lparr>Root := \<lparr>Level = ''info'', AppenderRefs = [''A'', ''A'']\<rparr>\<rparr>\<rparr>))
     = Inr (scenario_root_core, 1) \<and>
   distinct (rootAppenderRefs scenario_root_core)"
proof -
  let ?lc = "svc_logger\<lparr>AppenderRefs := [''A'', ''A'']\<rparr>"
  let ?cfg = "scenario\<lparr>Loggers := (Loggers scenario)\<lparr>Root := \<lparr>Level = ''info'', AppenderRefs = [''A'', ''A'']\<rparr>\<rparr>\<rparr>"
  have hyp1: "set (AppenderRefs ?lc) = set (AppenderRefs svc_logger) \<and> Level ?lc = Level svc_logger \<and>
    Name ?lc = Name svc_logger"
    by (simp add: svc_logger_def)
  have hyp2: "Appenders ?cfg = Appenders scenario \<and>
    Level (Root (Loggers ?cfg)) = Level (Root (Loggers scenario)) \<and>
    set (AppenderRefs (Root (Loggers ?cfg))) = set (AppenderRefs (Root (Loggers scenario)))"
    by (simp add: scenario_def)
  have e1: "newLogger zap_vocabulary scenario_root_core 1 ?lc = Inr (svc_handle, 3)"
    by (simp add: cfg_defs op_defs numeral_2_eq_2 numeral_3_eq_3)
  have e2: "newLogger zap_vocabulary scenario_root_core 1 svc_logger = Inr (svc_handle, 3)"
    by (simp add: cfg_defs op_defs numeral_2_eq_2 numeral_3_eq_3)
  have e3: "New_root zap_vocabulary 0 (Inr ?cfg) = Inr (scenario_root_core, 1)"
    by (simp add: cfg_defs op_defs)
  note t = appender_refs_as_set [where ?lc1.0 = ?lc and ?lc2.0 = svc_logger
      and c = scenario_root_core and parse = zap_vocabulary and h = 1]
  note u = appender_refs_as_set [where ?cfg1.0 = ?cfg and ?cfg2.0 = scenario
      and parse = zap_vocabulary and h = 0]
  have a: "length (logger_tee svc_handle) = card (set (effective_afs scenario_root_core ?lc))"
    using t [THEN conjunct1, THEN mp, OF hyp1] unfolding e1 e2 by simp
  have b: "distinct (rootAppenderRefs scenario_root_core)"
    using u [THEN conjunct2, THEN mp, OF hyp2] unfolding e3 scenario_New_root by simp
  from hyp1 e1 e2 e3 a b show ?thesis by blast
qed

lemma New_after_root:
  "New_root parse h raw = Inr (c, h1) \<Longrightarrow> raw = Inr cfg \<Longrightarrow>
   New parse h raw = loggers_loop parse c h1 (Logger (Loggers cfg))"
  by (simp add: New_def loggers_of_def)






lemma New_root_fields:
  assumes "New_root parse h raw = Inr (c, h1)"
  shows "nameToLogger c = Map.empty" and "h1 = h + 1"
    and "\<exists>lv. rootLevel c = Some lv \<and> level_addr lv = h \<and>
              parse (rootLevelName c) = Some (level_value lv)"
    and "rootAppenders c = map (\<lambda>n. (n, the (nameToAppender c n))) (rootAppenderRefs c)"
    and "set (rootAppenderRefs c) \<subseteq> dom (nameToAppender c)"
    and "distinct (rootAppenderRefs c)"
proof -
  from assms obtain cfg c1 v where
    "raw = Inr cfg" and "put_groups empty_core (Appenders cfg) = Inr c1" and
    v: "parse (Level (Root (Loggers cfg))) = Some v" and
    sub: "set (AppenderRefs (Root (Loggers cfg))) \<subseteq> dom (nameToAppender c1)" and
    c: "c = rooted c1 h v (Root (Loggers cfg))" and h1: "h1 = h + 1"
    by (rule New_root_Inr)
  show "nameToLogger c = Map.empty" using c by (simp add: rooted_def)
  show "h1 = h + 1" by (rule h1)
  show "\<exists>lv. rootLevel c = Some lv \<and> level_addr lv = h \<and>
              parse (rootLevelName c) = Some (level_value lv)"
    using c v by (simp add: rooted_def)
  show "rootAppenders c = map (\<lambda>n. (n, the (nameToAppender c n))) (rootAppenderRefs c)"
    using c by (simp add: rooted_def)
  show "set (rootAppenderRefs c) \<subseteq> dom (nameToAppender c)"
    using c sub by (simp add: rooted_def)
  show "distinct (rootAppenderRefs c)" using c by (simp add: rooted_def)
qed




section \<open>Misconfigurations detected by \<open>New\<close>\<close>







lemma New_Inr:
  assumes "New parse h raw = Inr (c, h')"
  obtains c0 h1 m where "New_root parse h raw = Inr (c0, h1)"
    and "loggers_loop parse c0 h1 (loggers_of raw) = Inr (c, h')"
    and "c = c0\<lparr>nameToLogger := m\<rparr>"
proof -
  from assms obtain c0 h1 where root: "New_root parse h raw = Inr (c0, h1)"
    and loop: "loggers_loop parse c0 h1 (loggers_of raw) = Inr (c, h')"
    by (cases "New_root parse h raw") (auto simp: New_def)
  from loggers_loop_frame [OF loop] obtain m where "c = c0\<lparr>nameToLogger := m\<rparr>" by blast
  with root loop show ?thesis by (rule that)
qed

lemma GetLogger_absent:
  "nameToLogger c name = None \<Longrightarrow>
   GetLogger c h name =
     (\<lparr>logger_addr = h, logger_name = name,
       logger_tee = build_cores (rootAppenders c) (rootLevel c)\<rparr>,
      c\<lparr>nameToLogger := (nameToLogger c)(name \<mapsto>
          \<lparr>logger_addr = h, logger_name = name,
           logger_tee = build_cores (rootAppenders c) (rootLevel c)\<rparr>)\<rparr>, h + 1)"
  by (simp add: GetLogger_def Load_def LoadOrStore_def newNamedLogger_def NewZapLogger_def
      NewTee_def)

lemma GetLogger_present:
  "nameToLogger c name = Some l \<Longrightarrow> GetLogger c h name = (l, c, h)"
  by (simp add: GetLogger_def Load_def)

lemma build_cores_enab: "zc \<in> set (build_cores am lv) \<Longrightarrow> core_enab zc = lv"
  by (auto simp: build_cores_def NewCore_def)


lemma putAppender_error:
  "putAppender c name a = (Some e, c') \<Longrightarrow> e = EmptyName \<or> e = NilAppender \<or> e = DuplicateName name"
  by (auto simp: putAppender_def split: if_splits option.splits)

lemma put_configs_error:
  "put_configs c t bs = Inl e \<Longrightarrow> e \<noteq> NoAppenders"
proof (induction bs arbitrary: c)
  case Nil
  then show ?case by simp
next
  case (Cons b bs)
  show ?case
  proof (cases "CreateAppender t b")
    case (Inl msg)
    with Cons.prems show ?thesis by auto
  next
    case a: (Inr a)
    show ?thesis
    proof (cases "ConfigName b")
      case (Inl msg)
      with Cons.prems a show ?thesis by auto
    next
      case n: (Inr name)
      obtain r c' where p: "putAppender c name a = (r, c')" by (cases "putAppender c name a")
      show ?thesis
      proof (cases r)
        case None
        with Cons.prems a n p have "put_configs c' t bs = Inl e" by simp
        then show ?thesis by (rule Cons.IH)
      next
        case (Some e')
        with Cons.prems a n p have "e = e'" by simp
        with putAppender_error [of c name a e' c'] p Some show ?thesis by auto
      qed
    qed
  qed
qed

lemma put_groups_error:
  "put_groups c gs = Inl e \<Longrightarrow> e \<noteq> NoAppenders"
proof (induction gs arbitrary: c)
  case Nil
  then show ?case by simp
next
  case (Cons g gs)
  obtain t bs where g: "g = (t, bs)" by (cases g)
  show ?case
  proof (cases "put_configs c t bs")
    case (Inl e')
    with Cons.prems g have "e = e'" by simp
    with put_configs_error [OF Inl] show ?thesis by simp
  next
    case (Inr c')
    with Cons.prems g have "put_groups c' gs = Inl e" by simp
    then show ?thesis by (rule Cons.IH)
  qed
qed

lemma New_root_never_NoAppenders: "New_root parse h raw \<noteq> Inl NoAppenders"
proof (cases raw)
  case (Inl msg)
  then show ?thesis by (simp add: New_root_def)
next
  case (Inr cfg)
  show ?thesis
  proof (cases "put_groups empty_core (Appenders cfg)")
    case (Inl e)
    with put_groups_error [OF Inl] Inr show ?thesis by (simp add: New_root_put_fail)
  next
    case c1: (Inr c1)
    show ?thesis
    proof (cases "parse (Level (Root (Loggers cfg)))")
      case None
      with New_root_invalid [where parse = parse and h = h, OF c1] Inr show ?thesis by simp
    next
      case (Some v)
      show ?thesis
      proof (cases "set (AppenderRefs (Root (Loggers cfg))) \<subseteq> dom (nameToAppender c1)")
        case True
        with New_root_ok [where parse = parse and h = h, OF c1 Some] Inr show ?thesis by simp
      next
        case False
        with New_root_notfound [where parse = parse and h = h, OF c1 Some] Inr show ?thesis
          by auto
      qed
    qed
  qed
qed

lemma loggers_loop_succeeds:
  "\<forall>lc \<in> set ls. \<exists>r. newLogger parse c h lc = Inr r \<Longrightarrow> distinct (map Name ls) \<Longrightarrow>
   set (map Name ls) \<inter> dom (nameToLogger c) = {} \<Longrightarrow>
   \<exists>c' h'. loggers_loop parse c h ls = Inr (c', h')"
proof (induction ls arbitrary: c h)
  case Nil
  then show ?case by simp
next
  case (Cons x ls)
  from Cons.prems(1) obtain l0 h1 where nl: "newLogger parse c h x = Inr (l0, h1)" by auto
  have none: "nameToLogger c (Name x) = None" using Cons.prems(3) by auto
  let ?c1 = "c\<lparr>nameToLogger := (nameToLogger c)(Name x \<mapsto> l0)\<rparr>"
  have same: "\<And>h0 y. newLogger parse ?c1 h0 y = newLogger parse c h0 y"
    by (rule newLogger_cong) simp_all
  have builds: "\<forall>lc \<in> set ls. \<exists>r. newLogger parse ?c1 h1 lc = Inr r"
    unfolding same using Cons.prems(1) newLogger_any_heap by (metis list.set_intros(2))
  have "distinct (map Name ls)" using Cons.prems(2) by simp
  moreover have "set (map Name ls) \<inter> dom (nameToLogger ?c1) = {}"
    using Cons.prems(2,3) by auto
  ultimately obtain c' h' where "loggers_loop parse ?c1 h1 ls = Inr (c', h')"
    using Cons.IH [OF builds] by blast
  then show ?case using nl none by (simp add: LoadOrStore_def)
qed

section \<open>Level objects\<close>




lemma build_cores_Nil: "build_cores [] lv = []"
  by (simp add: build_cores_def)

lemma New_with_empty_root:
  assumes pg: "put_groups empty_core (Appenders cfg) = Inr c1"
    and lev: "parse (Level (Root (Loggers cfg))) \<noteq> None"
    and refs: "AppenderRefs (Root (Loggers cfg)) = []"
    and dist: "distinct (map Name (Logger (Loggers cfg)))"
    and decl: "\<forall>lc \<in> set (Logger (Loggers cfg)).
                 AppenderRefs lc \<noteq> [] \<and> set (AppenderRefs lc) \<subseteq> dom (nameToAppender c1) \<and>
                 parse (if Level lc = '''' then Level (Root (Loggers cfg)) else Level lc) \<noteq> None"
  shows "\<exists>c h'. New parse h (Inr cfg) = Inr (c, h') \<and> rootAppenders c = [] \<and>
           (\<forall>name h0. name \<notin> set (map Name (Logger (Loggers cfg))) \<longrightarrow>
              nameToLogger c name = None \<and>
              GetLogger c h0 name =
                (\<lparr>logger_addr = h0, logger_name = name, logger_tee = []\<rparr>,
                 c\<lparr>nameToLogger := (nameToLogger c)(name \<mapsto>
                     \<lparr>logger_addr = h0, logger_name = name, logger_tee = []\<rparr>)\<rparr>, h0 + 1))"
proof -
  from lev obtain v where v: "parse (Level (Root (Loggers cfg))) = Some v" by blast
  let ?c0 = "rooted c1 h v (Root (Loggers cfg))"
  have sub: "set (AppenderRefs (Root (Loggers cfg))) \<subseteq> dom (nameToAppender c1)"
    using refs by simp
  have root: "New_root parse h (Inr cfg) = Inr (?c0, h + 1)"
    using pg v sub by (rule New_root_ok)
  have builds: "\<forall>lc \<in> set (Logger (Loggers cfg)). \<exists>r. newLogger parse ?c0 (h + 1) lc = Inr r"
  proof
    fix lc assume "lc \<in> set (Logger (Loggers cfg))"
    with decl have ne: "AppenderRefs lc \<noteq> []"
      and s: "set (AppenderRefs lc) \<subseteq> dom (nameToAppender c1)"
      and p: "parse (if Level lc = '''' then Level (Root (Loggers cfg)) else Level lc) \<noteq> None"
      by auto
    have "effective_levelName ?c0 lc =
        (if Level lc = '''' then Level (Root (Loggers cfg)) else Level lc)"
      by (cases "Level lc = ''''") (simp_all add: effective_levelName_def rooted_def)
    with p obtain w where "parse (effective_levelName ?c0 lc) = Some w"
      by auto
    moreover have "set (effective_afs ?c0 lc) \<subseteq> dom (nameToAppender ?c0)"
      using ne s by (simp add: effective_afs_def rooted_def)
    moreover have "effective_afs ?c0 lc \<noteq> []" using ne by (simp add: effective_afs_def)
    ultimately show "\<exists>r. newLogger parse ?c0 (h + 1) lc = Inr r"
      by (simp add: newLogger_ok [where v = w])
  qed
  have "set (map Name (Logger (Loggers cfg))) \<inter> dom (nameToLogger ?c0) = {}"
    by (simp add: rooted_def)
  from loggers_loop_succeeds [OF builds dist this] obtain c h' where
    loop: "loggers_loop parse ?c0 (h + 1) (Logger (Loggers cfg)) = Inr (c, h')"
    by blast
  then have new: "New parse h (Inr cfg) = Inr (c, h')"
    using New_after_root [OF root refl] by simp
  from loggers_loop_frame [OF loop] obtain m where c: "c = ?c0\<lparr>nameToLogger := m\<rparr>" by blast
  then have ra: "rootAppenders c = []" using refs by (simp add: rooted_def)
  have dom: "dom (nameToLogger c) = set (map Name (Logger (Loggers cfg)))"
    using loggers_loop_dom [OF loop] by (simp add: rooted_def)
  have "\<forall>name h0. name \<notin> set (map Name (Logger (Loggers cfg))) \<longrightarrow>
              nameToLogger c name = None \<and>
              GetLogger c h0 name =
                (\<lparr>logger_addr = h0, logger_name = name, logger_tee = []\<rparr>,
                 c\<lparr>nameToLogger := (nameToLogger c)(name \<mapsto>
                     \<lparr>logger_addr = h0, logger_name = name, logger_tee = []\<rparr>)\<rparr>, h0 + 1)"
  proof (intro allI impI)
    fix name h0 assume "name \<notin> set (map Name (Logger (Loggers cfg)))"
    with dom have none: "nameToLogger c name = None" by blast
    from GetLogger_absent [OF none, of h0] ra none
    show "nameToLogger c name = None \<and>
              GetLogger c h0 name =
                (\<lparr>logger_addr = h0, logger_name = name, logger_tee = []\<rparr>,
                 c\<lparr>nameToLogger := (nameToLogger c)(name \<mapsto>
                     \<lparr>logger_addr = h0, logger_name = name, logger_tee = []\<rparr>)\<rparr>, h0 + 1)"
      by (simp add: build_cores_Nil)
  qed
  with new ra show ?thesis by blast
qed

section \<open>A root with no appender\<close>

text \<open>
  C10 (as amended). The \<open>NoAppenders\<close> check is applied neither to the root configuration
  nor to the implicit loggers: the part of \<open>New\<close> that sets up the root never fails with
  \<open>NoAppenders\<close>, and when the root's list of refs is empty, the appender blocks
  register, the root's level name is recognised, and the declared loggers have distinct
  names and each a recognised effective level name and a non-empty list of registered
  refs of its own, \<open>New\<close> succeeds; \<open>GetLogger\<close> on an undeclared name then returns, and
  stores, a handle whose fan-out is over no appender.
\<close>

theorem root_without_appenders:
  "New_root parse h raw \<noteq> Inl NoAppenders \<and>
   (put_groups empty_core (Appenders cfg) = Inr c1 \<and>
    parse (Level (Root (Loggers cfg))) \<noteq> None \<and>
    AppenderRefs (Root (Loggers cfg)) = [] \<and>
    distinct (map Name (Logger (Loggers cfg))) \<and>
    (\<forall>lc \<in> set (Logger (Loggers cfg)).
       AppenderRefs lc \<noteq> [] \<and> set (AppenderRefs lc) \<subseteq> dom (nameToAppender c1) \<and>
       parse (if Level lc = '''' then Level (Root (Loggers cfg)) else Level lc) \<noteq> None) \<longrightarrow>
      (\<exists>c h'. New parse h (Inr cfg) = Inr (c, h') \<and> rootAppenders c = [] \<and>
         (\<forall>name h0. name \<notin> set (map Name (Logger (Loggers cfg))) \<longrightarrow>
            nameToLogger c name = None \<and>
            GetLogger c h0 name =
              (\<lparr>logger_addr = h0, logger_name = name, logger_tee = []\<rparr>,
               c\<lparr>nameToLogger := (nameToLogger c)(name \<mapsto>
                   \<lparr>logger_addr = h0, logger_name = name, logger_tee = []\<rparr>)\<rparr>, h0 + 1))))"
proof (intro conjI impI)
  show "New_root parse h raw \<noteq> Inl NoAppenders" by (rule New_root_never_NoAppenders)
next
  assume a: "put_groups empty_core (Appenders cfg) = Inr c1 \<and>
    parse (Level (Root (Loggers cfg))) \<noteq> None \<and>
    AppenderRefs (Root (Loggers cfg)) = [] \<and>
    distinct (map Name (Logger (Loggers cfg))) \<and>
    (\<forall>lc \<in> set (Logger (Loggers cfg)).
       AppenderRefs lc \<noteq> [] \<and> set (AppenderRefs lc) \<subseteq> dom (nameToAppender c1) \<and>
       parse (if Level lc = '''' then Level (Root (Loggers cfg)) else Level lc) \<noteq> None)"
  show "\<exists>c h'. New parse h (Inr cfg) = Inr (c, h') \<and> rootAppenders c = [] \<and>
         (\<forall>name h0. name \<notin> set (map Name (Logger (Loggers cfg))) \<longrightarrow>
            nameToLogger c name = None \<and>
            GetLogger c h0 name =
              (\<lparr>logger_addr = h0, logger_name = name, logger_tee = []\<rparr>,
               c\<lparr>nameToLogger := (nameToLogger c)(name \<mapsto>
                   \<lparr>logger_addr = h0, logger_name = name, logger_tee = []\<rparr>)\<rparr>, h0 + 1))"
    using a [THEN conjunct1] a [THEN conjunct2, THEN conjunct1]
      a [THEN conjunct2, THEN conjunct2, THEN conjunct1]
      a [THEN conjunct2, THEN conjunct2, THEN conjunct2, THEN conjunct1]
      a [THEN conjunct2, THEN conjunct2, THEN conjunct2, THEN conjunct2]
    by (rule New_with_empty_root)
qed

theorem root_without_appenders_witness:
  "New zap_vocabulary 0
     (Inr (scenario\<lparr>Loggers := (Loggers scenario)\<lparr>Root := \<lparr>Level = ''info'', AppenderRefs = []\<rparr>\<rparr>\<rparr>))
     = Inr (scenario_core\<lparr>rootAppenders := [], rootAppenderRefs := []\<rparr>, 3) \<and>
   ''other'' \<notin> set (map Name [svc_logger]) \<and>
   fst (GetLogger (scenario_core\<lparr>rootAppenders := [], rootAppenderRefs := []\<rparr>) 3 ''other'')
     = \<lparr>logger_addr = 3, logger_name = ''other'', logger_tee = []\<rparr>"
proof -
  let ?cfg = "scenario\<lparr>Loggers := (Loggers scenario)\<lparr>Root := \<lparr>Level = ''info'', AppenderRefs = []\<rparr>\<rparr>\<rparr>"
  let ?c1 = "empty_core\<lparr>nameToAppender := [''A'' \<mapsto> appender_A]\<rparr>"
  let ?c = "scenario_core\<lparr>rootAppenders := [], rootAppenderRefs := []\<rparr>"
  have hyp: "put_groups empty_core (Appenders ?cfg) = Inr ?c1 \<and>
    zap_vocabulary (Level (Root (Loggers ?cfg))) \<noteq> None \<and>
    AppenderRefs (Root (Loggers ?cfg)) = [] \<and>
    distinct (map Name (Logger (Loggers ?cfg))) \<and>
    (\<forall>lc \<in> set (Logger (Loggers ?cfg)).
       AppenderRefs lc \<noteq> [] \<and> set (AppenderRefs lc) \<subseteq> dom (nameToAppender ?c1) \<and>
       zap_vocabulary (if Level lc = '''' then Level (Root (Loggers ?cfg)) else Level lc) \<noteq> None)"
    by (simp add: cfg_defs op_defs)
  have new: "New zap_vocabulary 0 (Inr ?cfg) = Inr (?c, 3)"
    by (simp add: cfg_defs op_defs numeral_2_eq_2 numeral_3_eq_3)
  have und: "''other'' \<notin> set (map Name (Logger (Loggers ?cfg)))"
    by (simp add: cfg_defs)
  from root_without_appenders [where parse = zap_vocabulary and h = 0 and cfg = ?cfg
      and ?c1.0 = ?c1, THEN conjunct2, THEN mp, OF hyp]
  obtain c h' where c: "New zap_vocabulary 0 (Inr ?cfg) = Inr (c, h')"
    and g: "\<forall>name h0. name \<notin> set (map Name (Logger (Loggers ?cfg))) \<longrightarrow>
            nameToLogger c name = None \<and>
            GetLogger c h0 name =
              (\<lparr>logger_addr = h0, logger_name = name, logger_tee = []\<rparr>,
               c\<lparr>nameToLogger := (nameToLogger c)(name \<mapsto>
                   \<lparr>logger_addr = h0, logger_name = name, logger_tee = []\<rparr>)\<rparr>, h0 + 1)"
    by blast
  from c new have "c = ?c" by simp
  with g und have "fst (GetLogger ?c 3 ''other'')
     = \<lparr>logger_addr = 3, logger_name = ''other'', logger_tee = []\<rparr>"
    by simp
  moreover have "''other'' \<notin> set (map Name [svc_logger])" by (simp add: svc_logger_def)
  ultimately show ?thesis using new by blast
qed

text \<open>
  Counterexample to C10 as stated: the root's list of refs is empty and no logger is
  declared, but the root's level name is \<open>bogus\<close>, and \<open>New\<close> fails.
\<close>

theorem empty_root_refs_with_invalid_level:
  "AppenderRefs (Root (Loggers (bare\<lparr>Loggers := (Loggers bare)\<lparr>Root := \<lparr>Level = ''bogus'', AppenderRefs = []\<rparr>\<rparr>\<rparr>))) = [] \<and>
   Logger (Loggers (bare\<lparr>Loggers := (Loggers bare)\<lparr>Root := \<lparr>Level = ''bogus'', AppenderRefs = []\<rparr>\<rparr>\<rparr>)) = [] \<and>
   New zap_vocabulary 0
     (Inr (bare\<lparr>Loggers := (Loggers bare)\<lparr>Root := \<lparr>Level = ''bogus'', AppenderRefs = []\<rparr>\<rparr>\<rparr>))
     = Inl (InvalidLevel ''bogus'')"
  by (simp add: cfg_defs op_defs)

lemma New_stored_usable:
  assumes new: "New parse h raw = Inr (c, h')" and stored: "nameToLogger c name = Some l"
  shows "usable l \<and> logger_name l = name"
proof -
  from new obtain c0 h1 m where root: "New_root parse h raw = Inr (c0, h1)"
    and loop: "loggers_loop parse c0 h1 (loggers_of raw) = Inr (c, h')"
    by (rule New_Inr)
  have empty: "nameToLogger c0 = Map.empty" using root by (rule New_root_fields)
  from loggers_loop_stored [OF loop stored] empty obtain lc h0 h2 where
    lc: "Name lc = name" "newLogger parse c0 h0 lc = Inr (l, h2)"
    by auto
  from newLogger_Inr [OF lc(2)] lc(1) show ?thesis
    by (auto simp: usable_def NewCore_def)
qed

lemma New_root_level:
  assumes "New parse h raw = Inr (c, h')"
  shows "rootLevel c \<noteq> None"
proof -
  from assms obtain c0 h1 m where root: "New_root parse h raw = Inr (c0, h1)"
    and c: "c = c0\<lparr>nameToLogger := m\<rparr>"
    by (rule New_Inr)
  from New_root_fields(3) [OF root] c show ?thesis by auto
qed

lemma GetLogger_keeps:
  assumes lev: "rootLevel c \<noteq> None"
    and inv: "\<forall>n l. nameToLogger c n = Some l \<longrightarrow> usable l \<and> logger_name l = n"
    and get: "GetLogger c h name = (zl, c', h')"
  shows "rootLevel c' = rootLevel c" and "rootAppenders c' = rootAppenders c"
    and "\<forall>n l. nameToLogger c' n = Some l \<longrightarrow> usable l \<and> logger_name l = n"
    and "usable zl" and "logger_name zl = name" and "nameToLogger c' name = Some zl"
    and "\<forall>n l. nameToLogger c n = Some l \<longrightarrow> nameToLogger c' n = Some l"
proof -
  have all: "rootLevel c' = rootLevel c \<and> rootAppenders c' = rootAppenders c \<and>
    (\<forall>n l. nameToLogger c' n = Some l \<longrightarrow> usable l \<and> logger_name l = n) \<and>
    usable zl \<and> logger_name zl = name \<and> nameToLogger c' name = Some zl \<and>
    (\<forall>n l. nameToLogger c n = Some l \<longrightarrow> nameToLogger c' n = Some l)"
  proof (cases "nameToLogger c name")
    case None
    let ?zl = "\<lparr>logger_addr = h, logger_name = name,
                 logger_tee = build_cores (rootAppenders c) (rootLevel c)\<rparr>"
    have u: "usable ?zl" using lev by (auto simp: usable_def dest: build_cores_enab)
    have "GetLogger c h name = (?zl, c\<lparr>nameToLogger := (nameToLogger c)(name \<mapsto> ?zl)\<rparr>, h + 1)"
      using None by (rule GetLogger_absent)
    with get have eq: "(zl, c', h') =
        (?zl, c\<lparr>nameToLogger := (nameToLogger c)(name \<mapsto> ?zl)\<rparr>, h + 1)"
      by (simp only:)
    have zl: "zl = ?zl" using eq by (simp only: prod.inject)
    have c': "c' = c\<lparr>nameToLogger := (nameToLogger c)(name \<mapsto> ?zl)\<rparr>"
      using eq by (simp only: prod.inject)
    have 1: "rootLevel c' = rootLevel c" "rootAppenders c' = rootAppenders c"
      "nameToLogger c' name = Some zl" "logger_name zl = name"
      unfolding c' zl by simp_all
    have 2: "\<forall>n l. nameToLogger c' n = Some l \<longrightarrow> usable l \<and> logger_name l = n"
      unfolding c' using inv u by simp
    have 3: "\<forall>n l. nameToLogger c n = Some l \<longrightarrow> nameToLogger c' n = Some l"
      unfolding c' using None by auto
    from 1 2 3 u zl show ?thesis by blast
  next
    case (Some l)
    with get GetLogger_present [OF Some, of h] have "zl = l" "c' = c" by simp_all
    with Some inv show ?thesis by auto
  qed
  from all show "rootLevel c' = rootLevel c" by blast
  from all show "rootAppenders c' = rootAppenders c" by blast
  from all show "\<forall>n l. nameToLogger c' n = Some l \<longrightarrow> usable l \<and> logger_name l = n" by blast
  from all show "usable zl" by blast
  from all show "logger_name zl = name" by blast
  from all show "nameToLogger c' name = Some zl" by blast
  from all show "\<forall>n l. nameToLogger c n = Some l \<longrightarrow> nameToLogger c' n = Some l" by blast
qed

lemma GetLoggers_keeps:
  "rootLevel c \<noteq> None \<Longrightarrow>
   \<forall>n l. nameToLogger c n = Some l \<longrightarrow> usable l \<and> logger_name l = n \<Longrightarrow>
   GetLoggers c h names = (c', h') \<Longrightarrow>
   rootLevel c' = rootLevel c \<and> rootAppenders c' = rootAppenders c \<and>
   (\<forall>n l. nameToLogger c' n = Some l \<longrightarrow> usable l \<and> logger_name l = n) \<and>
   (\<forall>n l. nameToLogger c n = Some l \<longrightarrow> nameToLogger c' n = Some l)"
proof (induction names arbitrary: c h)
  case Nil
  then show ?case by simp
next
  case (Cons name names)
  obtain zl c1 h1 where g: "GetLogger c h name = (zl, c1, h1)"
    by (cases "GetLogger c h name")
  with Cons.prems(3) have rest: "GetLoggers c1 h1 names = (c', h')" by simp
  note k = GetLogger_keeps [OF Cons.prems(1,2) g]
  have "rootLevel c1 \<noteq> None" using k(1) Cons.prems(1) by simp
  note ih = Cons.IH [OF this k(3) rest]
  have "rootLevel c' = rootLevel c" using ih [THEN conjunct1] k(1) by (rule trans)
  moreover have "rootAppenders c' = rootAppenders c"
    using ih [THEN conjunct2, THEN conjunct1] k(2) by (rule trans)
  moreover note ih [THEN conjunct2, THEN conjunct2, THEN conjunct1]
  moreover have "\<forall>n l. nameToLogger c n = Some l \<longrightarrow> nameToLogger c' n = Some l"
    using ih [THEN conjunct2, THEN conjunct2, THEN conjunct2] k(7) by blast
  ultimately show ?case by (intro conjI)
qed

section \<open>Looking loggers up\<close>

text \<open>
  C2. \<open>GetLogger\<close> has no error result: it returns a handle on every registry and every
  name. On a registry returned by \<open>New\<close>, after any number of earlier calls, the handle
  it returns for a name can be logged to, bears the name and is the one stored under the
  name from then on; it is the stored handle when there is one, and otherwise a handle
  built from the root's appenders and the root's level, both set by \<open>New\<close>. Handles
  stored earlier stay as they are.
\<close>

theorem GetLogger_never_fails:
  "New parse h raw = Inr (c, h1) \<and> GetLoggers c h1 names = (c', h') \<longrightarrow>
     (\<exists>zl c'' h''. GetLogger c' h' name = (zl, c'', h'') \<and>
        usable zl \<and> logger_name zl = name \<and> nameToLogger c'' name = Some zl \<and>
        (\<forall>l. nameToLogger c' name = Some l \<longrightarrow> zl = l \<and> c'' = c' \<and> h'' = h') \<and>
        (nameToLogger c' name = None \<longrightarrow>
           zl = \<lparr>logger_addr = h', logger_name = name,
                 logger_tee = build_cores (rootAppenders c) (rootLevel c)\<rparr>) \<and>
        (\<forall>n l. nameToLogger c' n = Some l \<longrightarrow> nameToLogger c'' n = Some l))"
proof
  assume a: "New parse h raw = Inr (c, h1) \<and> GetLoggers c h1 names = (c', h')"
  then have new: "New parse h raw = Inr (c, h1)" and calls: "GetLoggers c h1 names = (c', h')"
    by simp_all
  have lev: "rootLevel c \<noteq> None" using new by (rule New_root_level)
  have inv: "\<forall>n l. nameToLogger c n = Some l \<longrightarrow> usable l \<and> logger_name l = n"
  proof (intro allI impI)
    fix n l assume "nameToLogger c n = Some l"
    with new show "usable l \<and> logger_name l = n" by (rule New_stored_usable)
  qed
  note keeps = GetLoggers_keeps [OF lev inv calls]
  note same = keeps [THEN conjunct1] keeps [THEN conjunct2, THEN conjunct1]
  note inv' = keeps [THEN conjunct2, THEN conjunct2, THEN conjunct1]
  have lev': "rootLevel c' \<noteq> None" using lev same by simp
  obtain zl c'' h'' where g: "GetLogger c' h' name = (zl, c'', h'')"
    by (cases "GetLogger c' h' name")
  note k = GetLogger_keeps [OF lev' inv' g]
  have p: "\<forall>l. nameToLogger c' name = Some l \<longrightarrow> zl = l \<and> c'' = c' \<and> h'' = h'"
  proof (intro allI impI)
    fix l assume "nameToLogger c' name = Some l"
    then have "GetLogger c' h' name = (l, c', h')" by (rule GetLogger_present)
    with g have "(zl, c'', h'') = (l, c', h')" by (simp only:)
    then show "zl = l \<and> c'' = c' \<and> h'' = h'" by (simp only: prod.inject)
  qed
  have q: "nameToLogger c' name = None \<longrightarrow>
           zl = \<lparr>logger_addr = h', logger_name = name,
                 logger_tee = build_cores (rootAppenders c) (rootLevel c)\<rparr>"
  proof
    assume "nameToLogger c' name = None"
    from GetLogger_absent [OF this, of h'] g
    have "(zl, c'', h'') =
      (\<lparr>logger_addr = h', logger_name = name,
         logger_tee = build_cores (rootAppenders c') (rootLevel c')\<rparr>,
       c'\<lparr>nameToLogger := (nameToLogger c')(name \<mapsto>
          \<lparr>logger_addr = h', logger_name = name,
           logger_tee = build_cores (rootAppenders c') (rootLevel c')\<rparr>)\<rparr>, h' + 1)"
      by (simp only:)
    then have "zl = \<lparr>logger_addr = h', logger_name = name,
         logger_tee = build_cores (rootAppenders c') (rootLevel c')\<rparr>"
      by (simp only: prod.inject)
    then show "zl = \<lparr>logger_addr = h', logger_name = name,
                 logger_tee = build_cores (rootAppenders c) (rootLevel c)\<rparr>"
      by (simp only: same)
  qed
  have body: "GetLogger c' h' name = (zl, c'', h'') \<and>
        usable zl \<and> logger_name zl = name \<and> nameToLogger c'' name = Some zl \<and>
        (\<forall>l. nameToLogger c' name = Some l \<longrightarrow> zl = l \<and> c'' = c' \<and> h'' = h') \<and>
        (nameToLogger c' name = None \<longrightarrow>
           zl = \<lparr>logger_addr = h', logger_name = name,
                 logger_tee = build_cores (rootAppenders c) (rootLevel c)\<rparr>) \<and>
        (\<forall>n l. nameToLogger c' n = Some l \<longrightarrow> nameToLogger c'' n = Some l)"
    using g k(4,5,6,7) p q by (intro conjI)
  show "\<exists>zl c'' h''. GetLogger c' h' name = (zl, c'', h'') \<and>
        usable zl \<and> logger_name zl = name \<and> nameToLogger c'' name = Some zl \<and>
        (\<forall>l. nameToLogger c' name = Some l \<longrightarrow> zl = l \<and> c'' = c' \<and> h'' = h') \<and>
        (nameToLogger c' name = None \<longrightarrow>
           zl = \<lparr>logger_addr = h', logger_name = name,
                 logger_tee = build_cores (rootAppenders c) (rootLevel c)\<rparr>) \<and>
        (\<forall>n l. nameToLogger c' n = Some l \<longrightarrow> nameToLogger c'' n = Some l)"
    by (intro exI) (rule body)
qed

theorem GetLogger_never_fails_witness:
  "New zap_vocabulary 0 (Inr scenario) = Inr (scenario_core, 3) \<and>
   fst (GetLogger scenario_core 3 ''svc'') = svc_handle \<and>
   usable (fst (GetLogger scenario_core 3 ''svc'')) \<and>
   usable (fst (GetLogger scenario_core 3 ''other'')) \<and>
   fst (GetLogger scenario_core 3 ''other'') =
     \<lparr>logger_addr = 3, logger_name = ''other'',
      logger_tee = [\<lparr>core_enc = 1, core_ws = 2,
                     core_enab = Some \<lparr>level_addr = 0, level_value = InfoLevel\<rparr>\<rparr>]\<rparr>"
proof -
  have calls: "GetLoggers scenario_core 3 [] = (scenario_core, 3)" by simp
  have stored: "nameToLogger scenario_core ''svc'' = Some svc_handle"
    and absent: "nameToLogger scenario_core ''other'' = None"
    by (simp_all add: scenario_core_def)
  note t = GetLogger_never_fails [where parse = zap_vocabulary and h = 0 and raw = "Inr scenario"
      and c = scenario_core and ?h1.0 = 3 and names = "[]" and c' = scenario_core and h' = 3
      and name = "''svc''", THEN mp, OF conjI [OF scenario_New calls]]
  note u = GetLogger_never_fails [where parse = zap_vocabulary and h = 0 and raw = "Inr scenario"
      and c = scenario_core and ?h1.0 = 3 and names = "[]" and c' = scenario_core and h' = 3
      and name = "''other''", THEN mp, OF conjI [OF scenario_New calls]]
  from t stored
  have a: "fst (GetLogger scenario_core 3 ''svc'') = svc_handle \<and>
           usable (fst (GetLogger scenario_core 3 ''svc''))"
    by auto
  from u absent
  have b: "usable (fst (GetLogger scenario_core 3 ''other'')) \<and>
    fst (GetLogger scenario_core 3 ''other'') =
      \<lparr>logger_addr = 3, logger_name = ''other'',
       logger_tee = build_cores (rootAppenders scenario_core) (rootLevel scenario_core)\<rparr>"
    by auto
  have bc: "build_cores (rootAppenders scenario_core) (rootLevel scenario_core) =
     [\<lparr>core_enc = 1, core_ws = 2,
       core_enab = Some \<lparr>level_addr = 0, level_value = InfoLevel\<rparr>\<rparr>]"
    by (simp add: cfg_defs build_cores_def NewCore_def)
  note b' = b [unfolded bc]
  from a b' scenario_New show ?thesis by (intro conjI) (erule conjunct1 conjunct2 | assumption)+
qed

lemma thread_step_cases:
  assumes "thread_step c h t = (t', c', h')"
  shows "nameToLogger c' = nameToLogger c \<or>
         (\<exists>name zl. t = Built name zl \<and> nameToLogger c name = None \<and>
            nameToLogger c' = (nameToLogger c)(name \<mapsto> zl) \<and> t' = Returned name zl)"
  using assms
  by (cases t) (auto simp: thread_step_def Load_def LoadOrStore_def newNamedLogger_def
      NewZapLogger_def split: option.splits)

lemma thread_step_mono:
  assumes "thread_step c h t = (t', c', h')" and "nameToLogger c n = Some l"
  shows "nameToLogger c' n = Some l"
  using thread_step_cases [OF assms(1)] assms(2) by auto

lemma thread_step_returned:
  assumes "thread_step c h t = (Returned n l, c', h')"
    and "\<forall>n l. t = Returned n l \<longrightarrow> nameToLogger c n = Some l"
  shows "nameToLogger c' n = Some l"
  using assms
  by (cases t) (auto simp: thread_step_def Load_def LoadOrStore_def newNamedLogger_def
      NewZapLogger_def split: option.splits)

lemma thread_step_pc:
  assumes "thread_step c h t = (t', c', h')"
  shows "thread_name t' = thread_name t \<and> min 3 (thread_pc t + 1) \<le> thread_pc t'"
  using assms
  by (cases t) (auto simp: thread_step_def Load_def LoadOrStore_def newNamedLogger_def
      NewZapLogger_def split: option.splits)

lemma step_length [simp]: "length (sys_threads (step i s)) = length (sys_threads s)"
  by (auto simp: step_def split: prod.splits)

lemma step_mono:
  "nameToLogger (sys_core s) n = Some l \<Longrightarrow> nameToLogger (sys_core (step i s)) n = Some l"
  by (auto simp: step_def split: prod.splits dest: thread_step_mono)

lemma step_returned:
  assumes inv: "\<forall>t \<in> set (sys_threads s). \<forall>n l. t = Returned n l \<longrightarrow>
                  nameToLogger (sys_core s) n = Some l"
  shows "\<forall>t \<in> set (sys_threads (step i s)). \<forall>n l. t = Returned n l \<longrightarrow>
           nameToLogger (sys_core (step i s)) n = Some l"
proof (cases "i < length (sys_threads s)")
  case False
  then show ?thesis using inv by (simp add: step_def)
next
  case True
  obtain t' c' h' where ts: "thread_step (sys_core s) (sys_heap s) (sys_threads s ! i) = (t', c', h')"
    by (cases "thread_step (sys_core s) (sys_heap s) (sys_threads s ! i)")
  have s': "step i s = \<lparr>sys_core = c', sys_heap = h', sys_threads = (sys_threads s)[i := t']\<rparr>"
    using True ts by (simp add: step_def)
  have old: "\<forall>n l. sys_threads s ! i = Returned n l \<longrightarrow> nameToLogger (sys_core s) n = Some l"
    using inv True by (metis nth_mem)
  show ?thesis
  proof (intro ballI allI impI)
    fix t n l assume t: "t \<in> set (sys_threads (step i s))" and r: "t = Returned n l"
    from t s' have "t = t' \<or> t \<in> set (sys_threads s)"
      by (auto dest: set_update_subset_insert [THEN subsetD])
    then show "nameToLogger (sys_core (step i s)) n = Some l"
    proof
      assume "t = t'"
      with ts r have "thread_step (sys_core s) (sys_heap s) (sys_threads s ! i) = (Returned n l, c', h')"
        by simp
      from thread_step_returned [OF this old] s' show ?thesis by simp
    next
      assume "t \<in> set (sys_threads s)"
      with inv r have "nameToLogger (sys_core s) n = Some l" by blast
      then show ?thesis by (rule step_mono)
    qed
  qed
qed

lemma run_append: "run (xs @ ys) s = run ys (run xs s)"
  by (induction xs arbitrary: s) simp_all

lemma run_mono:
  "nameToLogger (sys_core s) n = Some l \<Longrightarrow> nameToLogger (sys_core (run schedule s)) n = Some l"
  by (induction schedule arbitrary: s) (simp_all add: step_mono)

lemma run_returned:
  "\<forall>t \<in> set (sys_threads s). \<forall>n l. t = Returned n l \<longrightarrow> nameToLogger (sys_core s) n = Some l \<Longrightarrow>
   \<forall>t \<in> set (sys_threads (run schedule s)). \<forall>n l. t = Returned n l \<longrightarrow>
      nameToLogger (sys_core (run schedule s)) n = Some l"
proof (induction schedule arbitrary: s)
  case Nil
  then show ?case by simp
next
  case (Cons i schedule)
  from Cons.IH [OF step_returned [OF Cons.prems]] show ?case by simp
qed

lemma run_length [simp]: "length (sys_threads (run schedule s)) = length (sys_threads s)"
  by (induction schedule arbitrary: s) simp_all

lemma step_pc:
  assumes "j < length (sys_threads s)"
  shows "thread_name (sys_threads (step i s) ! j) = thread_name (sys_threads s ! j) \<and>
         min 3 (thread_pc (sys_threads s ! j) + (if i = j then 1 else 0))
           \<le> thread_pc (sys_threads (step i s) ! j)"
proof (cases "i < length (sys_threads s)")
  case False
  with assms show ?thesis by (auto simp: step_def)
next
  case True
  obtain t' c' h' where ts: "thread_step (sys_core s) (sys_heap s) (sys_threads s ! i) = (t', c', h')"
    by (cases "thread_step (sys_core s) (sys_heap s) (sys_threads s ! i)")
  have s': "sys_threads (step i s) = (sys_threads s)[i := t']"
    using True ts by (simp add: step_def)
  show ?thesis
  proof (cases "i = j")
    case True
    with thread_step_pc [OF ts] s' assms show ?thesis by simp
  next
    case False
    with s' show ?thesis by simp
  qed
qed

lemma run_pc:
  "j < length (sys_threads s) \<Longrightarrow>
   thread_name (sys_threads (run schedule s) ! j) = thread_name (sys_threads s ! j) \<and>
   min 3 (thread_pc (sys_threads s ! j) + count_list schedule j)
     \<le> thread_pc (sys_threads (run schedule s) ! j)"
proof (induction schedule arbitrary: s)
  case Nil
  then show ?case by simp
next
  case (Cons i schedule)
  have len: "j < length (sys_threads (step i s))" using Cons.prems by simp
  from Cons.IH [OF len] step_pc [OF Cons.prems, of i] show ?case
    by (auto simp: min_def split: if_splits)
qed

lemma pc_3: "thread_pc t = 3 \<Longrightarrow> \<exists>l. t = Returned (thread_name t) l"
  by (cases t) simp_all

lemma pc_le_3: "thread_pc t \<le> 3"
  by (cases t) simp_all

lemma run_returns:
  assumes "i < length names" and "3 \<le> count_list schedule i"
  shows "\<exists>l. sys_threads (run schedule (start c h names)) ! i = Returned (names ! i) l"
proof -
  let ?s = "start c h names"
  have len: "i < length (sys_threads ?s)" using assms(1) by (simp add: start_def)
  have t0: "sys_threads ?s ! i = Calling (names ! i)" using assms(1) by (simp add: start_def)
  from run_pc [OF len, of schedule] t0 assms(2)
  have name: "thread_name (sys_threads (run schedule ?s) ! i) = names ! i"
    and "3 \<le> thread_pc (sys_threads (run schedule ?s) ! i)"
    by (simp_all add: min_def split: if_splits)
  with pc_le_3 [of "sys_threads (run schedule ?s) ! i"]
  have "thread_pc (sys_threads (run schedule ?s) ! i) = 3" by simp
  from pc_3 [OF this] name show ?thesis by simp
qed

lemma run_alone:
  "GetLogger c h name = (zl, c', h') \<Longrightarrow>
   run [0, 0, 0] (start c h [name]) =
     \<lparr>sys_core = c', sys_heap = h', sys_threads = [Returned name zl]\<rparr>"
  by (cases "nameToLogger c name")
     (auto simp: start_def step_def thread_step_def GetLogger_def Load_def LoadOrStore_def
        newNamedLogger_def NewZapLogger_def)

lemma GetLogger_again:
  assumes "GetLogger c h name = (zl, c', h')"
  shows "GetLogger c' h' name = (zl, c', h')"
proof (cases "nameToLogger c name")
  case None
  from GetLogger_absent [OF None, of h] assms
  have "nameToLogger c' name = Some zl" by auto
  then show ?thesis by (rule GetLogger_present)
next
  case (Some l)
  from GetLogger_present [OF Some, of h] assms have "zl = l" "c' = c" by simp_all
  with Some show ?thesis by (simp add: GetLogger_present)
qed

lemma race:
  "run [0, 1, 0, 1, 1, 0] (start scenario_core 3 [''x'', ''x'']) =
     \<lparr>sys_core = scenario_core\<lparr>nameToLogger := [''svc'' \<mapsto> svc_handle, ''x'' \<mapsto> raced_handle]\<rparr>,
      sys_heap = 5,
      sys_threads = [Returned ''x'' raced_handle, Returned ''x'' raced_handle]\<rparr>"
  by (simp add: start_def step_def thread_step_def Load_def LoadOrStore_def newNamedLogger_def
      NewZapLogger_def NewTee_def build_cores_def NewCore_def cfg_defs raced_handle_def)

section \<open>One handle for each name\<close>

text \<open>
  C1. For every registry, every list of calls of \<open>GetLogger\<close> made by concurrent threads
  and every schedule of their steps: two calls for the same name that have returned have
  returned the same handle, which is the handle stored under the name (the one that was
  stored at the start, when there was one); a handle once stored under a name is never
  replaced, however the threads go on; every call returns once its thread has taken
  three steps. A call that runs alone is \<open>GetLogger\<close> as defined above, and calling it
  again returns the same handle and changes nothing.
\<close>

theorem GetLogger_one_handle_per_name:
  "(\<forall>i j n l l'. i < length names \<and> j < length names \<and>
       sys_threads (run schedule (start c h names)) ! i = Returned n l \<and>
       sys_threads (run schedule (start c h names)) ! j = Returned n l' \<longrightarrow>
         l = l' \<and> names ! i = n \<and>
         nameToLogger (sys_core (run schedule (start c h names))) n = Some l \<and>
         (\<forall>l0. nameToLogger c n = Some l0 \<longrightarrow> l = l0)) \<and>
   (\<forall>n l more. nameToLogger (sys_core (run schedule (start c h names))) n = Some l \<longrightarrow>
       nameToLogger (sys_core (run (schedule @ more) (start c h names))) n = Some l) \<and>
   (\<forall>i. i < length names \<and> 3 \<le> count_list schedule i \<longrightarrow>
       (\<exists>l. sys_threads (run schedule (start c h names)) ! i = Returned (names ! i) l)) \<and>
   (\<forall>zl c' h'. GetLogger c h name = (zl, c', h') \<longrightarrow>
       run [0, 0, 0] (start c h [name]) =
         \<lparr>sys_core = c', sys_heap = h', sys_threads = [Returned name zl]\<rparr> \<and>
       GetLogger c' h' name = (zl, c', h'))"
proof (intro conjI allI impI)
  let ?s = "start c h names"
  let ?s' = "run schedule ?s"
  have init: "\<forall>t \<in> set (sys_threads ?s). \<forall>n l. t = Returned n l \<longrightarrow>
                nameToLogger (sys_core ?s) n = Some l"
    by (auto simp: start_def)
  note inv = run_returned [OF init, of schedule]
  have len: "length (sys_threads ?s') = length names" by (simp add: start_def)
  {
    fix i j n l l'
    assume a: "i < length names \<and> j < length names \<and>
       sys_threads ?s' ! i = Returned n l \<and> sys_threads ?s' ! j = Returned n l'"
    then have ai: "i < length names" and aj: "j < length names" by blast+
    have i: "sys_threads ?s' ! i \<in> set (sys_threads ?s')"
      by (rule nth_mem) (simp only: len ai)
    have j: "sys_threads ?s' ! j \<in> set (sys_threads ?s')"
      by (rule nth_mem) (simp only: len aj)
    from inv i a have li: "nameToLogger (sys_core ?s') n = Some l" by blast
    from inv j a have lj: "nameToLogger (sys_core ?s') n = Some l'" by blast
    from li lj show "l = l'" by simp
    from li show "nameToLogger (sys_core ?s') n = Some l" .
    have "i < length (sys_threads ?s)" using a by (simp add: start_def)
    from run_pc [OF this, of schedule] a show "names ! i = n" by (simp add: start_def)
    {
      fix l0 assume "nameToLogger c n = Some l0"
      then have "nameToLogger (sys_core ?s) n = Some l0" by (simp add: start_def)
      then have "nameToLogger (sys_core ?s') n = Some l0" by (rule run_mono)
      with li show "l = l0" by simp
    }
  }
  {
    fix n l more
    assume "nameToLogger (sys_core ?s') n = Some l"
    then have "nameToLogger (sys_core (run more ?s')) n = Some l" by (rule run_mono)
    then show "nameToLogger (sys_core (run (schedule @ more) ?s)) n = Some l"
      by (simp add: run_append)
  }
  {
    fix i assume "i < length names \<and> 3 \<le> count_list schedule i"
    then show "\<exists>l. sys_threads ?s' ! i = Returned (names ! i) l"
      using run_returns [of i names schedule c h] by simp
  }
  {
    fix zl c' h' assume g: "GetLogger c h name = (zl, c', h')"
    then show "run [0, 0, 0] (start c h [name]) =
         \<lparr>sys_core = c', sys_heap = h', sys_threads = [Returned name zl]\<rparr>"
      by (rule run_alone)
    from g show "GetLogger c' h' name = (zl, c', h')" by (rule GetLogger_again)
  }
qed

theorem GetLogger_one_handle_per_name_witness:
  "sys_threads (run [0, 1, 0, 1, 1, 0] (start scenario_core 3 [''x'', ''x''])) ! 0
     = Returned ''x'' raced_handle \<and>
   sys_threads (run [0, 1, 0, 1, 1, 0] (start scenario_core 3 [''x'', ''x''])) ! 1
     = Returned ''x'' raced_handle \<and>
   nameToLogger (sys_core (run [0, 1, 0, 1, 1, 0] (start scenario_core 3 [''x'', ''x'']))) ''x''
     = Some raced_handle \<and>
   nameToLogger (sys_core (run ([0, 1, 0, 1, 1, 0] @ [1, 0])
       (start scenario_core 3 [''x'', ''x'']))) ''x''
     = Some raced_handle"
proof -
  let ?s' = "run [0, 1, 0, 1, 1, 0] (start scenario_core 3 [''x'', ''x''])"
  have r0: "sys_threads ?s' ! 0 = Returned ''x'' raced_handle"
    and r1: "sys_threads ?s' ! 1 = Returned ''x'' raced_handle"
    unfolding race by simp_all
  have hyp: "(0::nat) < length [''x'', ''x''] \<and> (1::nat) < length [''x'', ''x''] \<and>
       sys_threads ?s' ! 0 = Returned ''x'' raced_handle \<and>
       sys_threads ?s' ! 1 = Returned ''x'' raced_handle"
    using r0 r1 by simp
  note t = GetLogger_one_handle_per_name [where names = "[''x'', ''x'']"
      and schedule = "[0, 1, 0, 1, 1, 0]" and c = scenario_core and h = 3]
  from t [THEN conjunct1, THEN spec, THEN spec, THEN spec, THEN spec, THEN spec, THEN mp, OF hyp]
  have stored: "nameToLogger (sys_core ?s') ''x'' = Some raced_handle" by blast
  from t [THEN conjunct2, THEN conjunct1, THEN spec, THEN spec, THEN spec, THEN mp, OF stored]
  have "nameToLogger (sys_core (run ([0, 1, 0, 1, 1, 0] @ [1, 0])
       (start scenario_core 3 [''x'', ''x'']))) ''x'' = Some raced_handle" .
  with r0 r1 stored show ?thesis by (intro conjI)
qed

end
